theory Spec2Isabelle
  imports Complex_Main
begin

section \<open>Errors raised by the notebook code\<close>

text \<open>
  The exceptions that the modelled cells can raise.  \<open>FitpackError\<close> stands for the
  rejection of a grid with fewer than two points along an axis by the linear
  interpolation routine.
\<close>

datatype error = ValueError | ZeroDivisionError | IndexError | FitpackError

section \<open>Block partitioning of the KTH cell\<close>

text \<open>
  \<open>NBlocks = int(np.ceil(1 + (N - BlockLen)/BlockHop))\<close>: true division of Python
  integers (the notebook runs on Python 3), read here over the reals.  A zero hop
  raises \<open>ZeroDivisionError\<close>.
\<close>

definition NBlocks :: "nat \<Rightarrow> int \<Rightarrow> int \<Rightarrow> error + int" where
  "NBlocks N BlockLen BlockHop =
     (if BlockHop = 0 then Inl ZeroDivisionError
      else Inr \<lceil>1 + real_of_int (int N - BlockLen) / real_of_int BlockHop\<rceil>)"

text \<open>
  \<open>thisidxs = np.arange(k*BlockHop, k*BlockHop+BlockLen)\<close> followed by
  \<open>thisidxs = thisidxs[thisidxs < N]\<close>.
\<close>

definition thisidxs :: "nat \<Rightarrow> int \<Rightarrow> int \<Rightarrow> nat \<Rightarrow> int list" where
  "thisidxs N BlockLen BlockHop k =
     filter (\<lambda>x. x < int N) [int k * BlockHop .. int k * BlockHop + BlockLen - 1]"

text \<open>
  The list \<open>idxs\<close> after the loop \<open>for k in range(NBlocks)\<close>.  The array
  \<open>res = np.zeros(NBlocks)\<close> allocated right after the loop raises \<open>ValueError\<close> on a
  negative count.
\<close>

definition idxs :: "nat \<Rightarrow> int \<Rightarrow> int \<Rightarrow> error + int list list" where
  "idxs N BlockLen BlockHop =
     (case NBlocks N BlockLen BlockHop of
        Inl e \<Rightarrow> Inl e
      | Inr nb \<Rightarrow>
          if nb < 0 then Inl ValueError
          else Inr (map (thisidxs N BlockLen BlockHop) [0..<nat nb]))"

text \<open>Every frame index below \<open>N\<close> lies in some block.\<close>

definition covers :: "int list list \<Rightarrow> nat \<Rightarrow> bool" where
  "covers bs N = (\<forall>n \<in> set [0..<N]. \<exists>b \<in> set bs. int n \<in> set b)"

section \<open>Array values\<close>

text \<open>
  Array entries are read as real numbers.  The two places where NumPy leaves the
  reals are kept: a division by zero and the square root of a negative number, both
  of which give a non-finite value instead of raising.
\<close>

datatype flt = Fin real | PInf | NInf | NaN

text \<open>\<open>x / y\<close> on NumPy floats with a divisor that is a non-negative norm.\<close>

definition np_divide :: "real \<Rightarrow> real \<Rightarrow> flt" where
  "np_divide x y =
     (if y \<noteq> 0 then Fin (x / y)
      else if x = 0 then NaN
      else if 0 < x then PInf else NInf)"

text \<open>\<open>np.sqrt\<close>: not-a-number below zero.\<close>

definition np_sqrt :: "real \<Rightarrow> flt" where
  "np_sqrt x = (if x < 0 then NaN else Fin (sqrt x))"

text \<open>\<open>v * s\<close> for a finite \<open>v\<close>.\<close>

fun np_times :: "real \<Rightarrow> flt \<Rightarrow> flt" where
  "np_times v (Fin s) = Fin (v * s)"
| "np_times v NaN = NaN"
| "np_times v PInf = (if v = 0 then NaN else if 0 < v then PInf else NInf)"
| "np_times v NInf = (if v = 0 then NaN else if 0 < v then NInf else PInf)"

section \<open>PCA of the frames: \<open>getPCAVideo\<close>\<close>

definition dot :: "real list \<Rightarrow> real list \<Rightarrow> real" where
  "dot a b = sum_list (map2 (*) a b)"

text \<open>\<open>ICov = I.dot(I.T)\<close>: entry \<open>(i, j)\<close> is the inner product of frames \<open>i\<close> and \<open>j\<close>.\<close>

definition ICov :: "real list list \<Rightarrow> real list list" where
  "ICov I = map (\<lambda>r. map (dot r) I) I"

text \<open>
  \<open>linalg.eigh\<close> is a library routine; its result \<open>(lam, V)\<close> is a parameter, with
  as many eigenvalues as \<open>V\<close> has columns.  \<open>V * np.sqrt(lam[None, :])\<close> scales
  column \<open>j\<close> of \<open>V\<close> by \<open>np.sqrt(lam[j])\<close>.
\<close>

definition getPCAVideo ::
  "(real list list \<Rightarrow> real list \<times> real list list) \<Rightarrow> real list list \<Rightarrow> flt list list" where
  "getPCAVideo eigh I =
     (let (lam, V) = eigh (ICov I)
      in map (\<lambda>row. map2 (\<lambda>v l. np_times v (np_sqrt l)) row lam) V)"

text \<open>
  What a symmetric eigendecomposition \<open>(lam, V)\<close> of an \<open>n \<times> n\<close> matrix \<open>G\<close> is:
  eigenvalues ascending, \<open>V\<close> orthogonal, and \<open>G = V diag(lam) V\<^sup>T\<close>.
\<close>

definition eigh_ok :: "real list list \<Rightarrow> real list \<Rightarrow> real list list \<Rightarrow> bool" where
  "eigh_ok G lam V =
     (let n = length G in
      length lam = n \<and> length V = n \<and> list_all (\<lambda>r. length r = n) V \<and> sorted lam \<and>
      list_all (\<lambda>i. list_all (\<lambda>j.
          dot (V ! i) (V ! j) = (if i = j then 1 else 0) \<and>
          G ! i ! j = dot (map2 (*) (V ! i) lam) (V ! j)) [0..<n]) [0..<n])"

text \<open>Euclidean distance between two rows.\<close>

definition dist_rows :: "real list \<Rightarrow> real list \<Rightarrow> real" where
  "dist_rows a b = sqrt (sum_list (map (\<lambda>x. x\<^sup>2) (map2 (-) a b)))"

section \<open>Sliding window embedding: \<open>getSlidingWindowVideo\<close>\<close>

text \<open>Python's \<open>xs[a:b]\<close>, negative bounds counting from the end.\<close>

definition py_slice :: "'a list \<Rightarrow> int \<Rightarrow> int \<Rightarrow> 'a list" where
  "py_slice xs a b =
     (let n = int (length xs);
          lo = (if a < 0 then max 0 (a + n) else min a n);
          hi = (if b < 0 then max 0 (b + n) else min b n)
      in take (nat (hi - lo)) (drop (nat lo) xs))"

text \<open>
  \<open>scipy.interpolate.interp2d(pix, y, z, kind='linear')\<close> evaluated at \<open>(pix, ynew)\<close>,
  a library routine.  On a rectangular grid the fitted surface is the piecewise
  bilinear interpolant; at the pixel positions themselves it is linear in time
  between the two neighbouring grid rows.  The routine rejects a grid with fewer than
  two points along an axis, sorts the evaluation times, and evaluates a time outside
  the grid at the nearest grid end.
\<close>

fun lerp_grid :: "real list \<Rightarrow> real list list \<Rightarrow> real \<Rightarrow> real list" where
  "lerp_grid (y0 # y1 # ys) (z0 # z1 # zs) t =
     (if t \<le> y1 \<or> ys = [] then map2 (\<lambda>a b. a + (t - y0) / (y1 - y0) * (b - a)) z0 z1
      else lerp_grid (y1 # ys) (z1 # zs) t)"
| "lerp_grid _ _ t = []"

definition interp2d_linear ::
  "nat \<Rightarrow> real list \<Rightarrow> real list list \<Rightarrow> real list \<Rightarrow> error + real list list" where
  "interp2d_linear P y z ynew =
     (if P < 2 \<or> length y < 2 then Inl FitpackError
      else Inr (map (\<lambda>t. lerp_grid y z (max (hd y) (min (last y) t))) (sort ynew)))"

text \<open>
  The loop \<open>for i in range(NWindows)\<close>.  \<open>P\<close> is \<open>I.shape[1]\<close>; it is passed
  explicitly because a list of rows does not record the width of an array without
  rows.  \<open>idxx[0]\<close> raises \<open>IndexError\<close> when \<open>np.arange(dim)\<close> is empty.
\<close>

fun window_loop ::
  "real list list \<Rightarrow> nat \<Rightarrow> int \<Rightarrow> real \<Rightarrow> real \<Rightarrow> nat list \<Rightarrow> real list list
     \<Rightarrow> error + real list list" where
  "window_loop I P dim' Tau dT [] X = Inr X"
| "window_loop I P dim' Tau dT (i # rest) X =
     (let idxx = map (\<lambda>k. dT * real i + Tau * real k) [0..<nat dim'] in
      if idxx = [] then Inl IndexError
      else
        let start = \<lfloor>hd idxx\<rfloor>; endd = \<lceil>last idxx\<rceil> + 2 in
        if int (length I) \<le> endd then Inr (take i X)
        else
          let ys = py_slice [0..<length I] start (endd + 1) in
          case interp2d_linear P (map real ys) (map (\<lambda>j. I ! j) ys) idxx of
            Inl e \<Rightarrow> Inl e
          | Inr Z \<Rightarrow> window_loop I P dim' Tau dT rest (X[i := concat Z]))"

text \<open>
  \<open>NWindows = int(np.floor((N-dim*Tau)/dT))\<close> and \<open>X = np.zeros((NWindows, dim*P))\<close>:
  a zero step raises on the division, a negative row or column count raises
  \<open>ValueError\<close> in the allocation.
\<close>

definition getSlidingWindowVideo ::
  "real list list \<Rightarrow> nat \<Rightarrow> int \<Rightarrow> real \<Rightarrow> real \<Rightarrow> error + real list list" where
  "getSlidingWindowVideo I P dim' Tau dT =
     (let N = length I in
      if dT = 0 then Inl ZeroDivisionError
      else
        let NWindows = \<lfloor>(real N - real_of_int dim' * Tau) / dT\<rfloor> in
        if NWindows < 0 \<or> dim' * int P < 0 then Inl ValueError
        else window_loop I P dim' Tau dT [0..<nat NWindows]
               (replicate (nat NWindows) (replicate (nat (dim' * int P)) 0)))"

text \<open>
  Linear interpolation in time of the whole series at time \<open>t\<close>: between frame
  \<open>floor t\<close> and the next one.
\<close>

definition frame_at :: "real list list \<Rightarrow> real \<Rightarrow> real list" where
  "frame_at I t =
     (let j = nat \<lfloor>t\<rfloor>; w = t - real_of_int \<lfloor>t\<rfloor>
      in map2 (\<lambda>a b. a + w * (b - a)) (I ! j) (I ! Suc j))"

text \<open>
  Row \<open>i\<close> of the cloud as the specification describes it: the frames interpolated
  at the times \<open>dT*i + Tau*k\<close>, \<open>k = 0 .. dim-1\<close>, one after the other.
\<close>

definition window_row :: "real list list \<Rightarrow> int \<Rightarrow> real \<Rightarrow> real \<Rightarrow> nat \<Rightarrow> real list" where
  "window_row I dim' Tau dT i =
     concat (map (\<lambda>k. frame_at I (dT * real i + Tau * real k)) [0..<nat dim'])"

text \<open>
  The test \<open>end >= I.shape[0]\<close> of window \<open>i\<close>, with
  \<open>end = int(np.ceil(idxx[-1]))+2\<close>: the slice \<open>start .. end\<close> that the code takes for
  the interpolation is two frames wider than the sample times need.
\<close>

definition padded_range_exceeds :: "nat \<Rightarrow> int \<Rightarrow> real \<Rightarrow> real \<Rightarrow> nat \<Rightarrow> bool" where
  "padded_range_exceeds N dim' Tau dT i =
     (int N \<le> \<lceil>dT * real i + Tau * real_of_int (dim' - 1)\<rceil> + 2)"

text \<open>
  In the words of the specification: the frame range needed by window \<open>i\<close>, the
  frames \<open>floor(dT*i) .. ceil(dT*i + Tau*(dim-1))\<close> spanning its sample times,
  exceeds the available frames \<open>0 .. N-1\<close>.
\<close>

definition sample_range_exceeds :: "nat \<Rightarrow> int \<Rightarrow> real \<Rightarrow> real \<Rightarrow> nat \<Rightarrow> bool" where
  "sample_range_exceeds N dim' Tau dT i =
     (\<lfloor>dT * real i\<rfloor> < 0 \<or> int N - 1 < \<lceil>dT * real i + Tau * real_of_int (dim' - 1)\<rceil>)"

section \<open>Mean-centring and normalisation of the cloud\<close>

text \<open>
  \<open>XS = XS - np.mean(XS, 1)[:, None]\<close> and \<open>XS = XS/np.sqrt(np.sum(XS**2, 1))[:, None]\<close>,
  row by row.  \<open>np.mean\<close> is a library routine whose result is rounded; what it
  returns on a row is the parameter \<open>npmean\<close>.  The mean of a row without entries is
  not a number, but then there is no entry to subtract it from.
\<close>

definition center_row :: "(real list \<Rightarrow> real) \<Rightarrow> real list \<Rightarrow> real list" where
  "center_row npmean r = map (\<lambda>x. x - npmean r) r"

definition sumsq :: "real list \<Rightarrow> real" where
  "sumsq r = sum_list (map (\<lambda>x. x\<^sup>2) r)"

definition normalize_row :: "(real list \<Rightarrow> real) \<Rightarrow> real list \<Rightarrow> flt list" where
  "normalize_row npmean r =
     (let c = center_row npmean r in map (\<lambda>x. np_divide x (sqrt (sumsq c))) c)"

definition normalize_cloud :: "(real list \<Rightarrow> real) \<Rightarrow> real list list \<Rightarrow> flt list list" where
  "normalize_cloud npmean XS = map (normalize_row npmean) XS"

text \<open>A degenerate row: zero variance after mean-centring.\<close>

definition degenerate :: "(real list \<Rightarrow> real) \<Rightarrow> real list \<Rightarrow> bool" where
  "degenerate npmean r = (sumsq (center_row npmean r) = 0)"

text \<open>The exact mean of a row.\<close>

definition mean :: "real list \<Rightarrow> real" where
  "mean r = sum_list r / real (length r)"

text \<open>
  In the words of the specification: the row mean-centred by its own mean and
  divided by its own Euclidean norm.
\<close>

definition unit_row :: "real list \<Rightarrow> real list" where
  "unit_row r =
     map (\<lambda>x. (x - mean r) / sqrt (sumsq (map (\<lambda>y. y - mean r) r))) r"

section \<open>Scoring of the KTH cell\<close>

text \<open>A persistence diagram is an array of rows \<open>(birth, death)\<close>.\<close>

type_synonym diagram = "(real \<times> real) list"

text \<open>\<open>np.max\<close> of a non-empty array.\<close>

fun np_max :: "real list \<Rightarrow> real" where
  "np_max [] = 0"
| "np_max [x] = x"
| "np_max (x # y # ys) = max x (np_max (y # ys))"

text \<open>
  The body of the block loop after \<open>PDs = doRipsFiltration(XS, 1)\<close>, on the pair
  \<open>(res, scores[i])\<close>.
\<close>

definition score_step :: "diagram list \<Rightarrow> nat \<Rightarrow> real list \<times> real \<Rightarrow> real list \<times> real" where
  "score_step PDs j st =
     (let (res, score) = st in
      if length PDs < 2 then (res, score)
      else if PDs ! 1 \<noteq> [] then
        let res' = res[j := np_max (map (\<lambda>(b, d). d - b) (PDs ! 1))] in
        if score < res' ! j then (res', res' ! j) else (res', score)
      else (res, score))"

text \<open>The scoring over the diagrams of blocks \<open>j, j+1, ...\<close>.\<close>

fun score_loop :: "diagram list list \<Rightarrow> nat \<Rightarrow> real list \<times> real \<Rightarrow> real list \<times> real" where
  "score_loop [] j st = st"
| "score_loop (PDs # rest) j st = score_loop rest (Suc j) (score_step PDs j st)"

text \<open>\<open>res = np.zeros(NBlocks)\<close>, \<open>scores[i] = 0\<close>, then the loop.\<close>

definition video_score :: "diagram list list \<Rightarrow> real list \<times> real" where
  "video_score PDss = score_loop PDss 0 (replicate (length PDss) 0, 0)"

text \<open>
  The score of one block in the words of the specification: the largest
  \<open>death - birth\<close> over the degree-1 pairs, 0 if that diagram is empty or absent.
\<close>

definition PeriodicityScore :: "diagram list \<Rightarrow> real" where
  "PeriodicityScore PDs =
     (if length PDs < 2 \<or> PDs ! 1 = [] then 0
      else Max (set (map (\<lambda>(b, d). d - b) (PDs ! 1))))"

text \<open>Every pair of every diagram has its death at or after its birth.\<close>

definition diagrams_ok :: "diagram list \<Rightarrow> bool" where
  "diagrams_ok PDs = list_all (list_all (\<lambda>(b, d). b \<le> d)) PDs"

section \<open>Embedding parameters of a block\<close>

text \<open>
  \<open>Tau = win/float(dim-1)\<close> and \<open>dT = (len(idx)-dim*Tau)/float(len(idx))\<close>; both
  divisions raise on a zero divisor.
\<close>

definition block_params :: "int \<Rightarrow> int \<Rightarrow> int list \<Rightarrow> error + real \<times> real" where
  "block_params win dim' idx =
     (if dim' - 1 = 0 then Inl ZeroDivisionError
      else
        let Tau = real_of_int win / real_of_int (dim' - 1) in
        if length idx = 0 then Inl ZeroDivisionError
        else Inr (Tau, (real (length idx) - real_of_int dim' * Tau) / real (length idx)))"

text \<open>\<open>X[idx, :]\<close>: negative indices count from the end, others out of range raise.\<close>

fun rows_at :: "'a list \<Rightarrow> int list \<Rightarrow> error + 'a list" where
  "rows_at X [] = Inr []"
| "rows_at X (j # js) =
     (let n = int (length X) in
      if j < - n \<or> n \<le> j then Inl IndexError
      else case rows_at X js of
             Inl e \<Rightarrow> Inl e
           | Inr rs \<Rightarrow> Inr (X ! nat (if j < 0 then j + n else j) # rs))"

text \<open>The normalised cloud of one block, the argument of \<open>doRipsFiltration\<close>.\<close>

definition block_cloud ::
  "(real list \<Rightarrow> real) \<Rightarrow> real list list \<Rightarrow> nat \<Rightarrow> int list \<Rightarrow> int \<Rightarrow> int \<Rightarrow> error + flt list list" where
  "block_cloud npmean X P idx win dim' =
     (case block_params win dim' idx of
        Inl e \<Rightarrow> Inl e
      | Inr (Tau, dT) \<Rightarrow>
          (case rows_at X idx of
             Inl e \<Rightarrow> Inl e
           | Inr B \<Rightarrow>
               (case getSlidingWindowVideo B P dim' Tau dT of
                  Inl e \<Rightarrow> Inl e
                | Inr XS \<Rightarrow> Inr (normalize_cloud npmean XS))))"

text \<open>
  The block loop of one video; \<open>rips\<close> stands for \<open>doRipsFiltration(XS, 1)\<close>, which
  lives outside the notebook.
\<close>

fun block_loop ::
  "(flt list list \<Rightarrow> diagram list) \<Rightarrow> (real list \<Rightarrow> real) \<Rightarrow> real list list \<Rightarrow> nat \<Rightarrow> int \<Rightarrow> int
     \<Rightarrow> int list list
     \<Rightarrow> nat \<Rightarrow> real list \<times> real \<Rightarrow> error + real list \<times> real" where
  "block_loop rips npmean X P win dim' [] j st = Inr st"
| "block_loop rips npmean X P win dim' (idx # rest) j st =
     (case block_cloud npmean X P idx win dim' of
        Inl e \<Rightarrow> Inl e
      | Inr XS \<Rightarrow> block_loop rips npmean X P win dim' rest (Suc j) (score_step (rips XS) j st))"

definition kth_video ::
  "(flt list list \<Rightarrow> diagram list) \<Rightarrow> (real list \<Rightarrow> real) \<Rightarrow> real list list \<Rightarrow> nat \<Rightarrow> int \<Rightarrow> int
     \<Rightarrow> int \<Rightarrow> int
     \<Rightarrow> error + real list \<times> real" where
  "kth_video rips npmean X P BlockLen BlockHop win dim' =
     (case idxs (length X) BlockLen BlockHop of
        Inl e \<Rightarrow> Inl e
      | Inr bs \<Rightarrow> block_loop rips npmean X P win dim' bs 0 (replicate (length bs) 0, 0))"

section \<open>Ranking of the videos\<close>

text \<open>
  \<open>np.argsort(-scores)+1\<close>.  \<open>np.argsort\<close> is a library routine and a parameter
  here; its default sort is not stable.
\<close>

definition ranking :: "(real list \<Rightarrow> nat list) \<Rightarrow> real list \<Rightarrow> nat list" where
  "ranking argsort scores = map (\<lambda>i. i + 1) (argsort (map uminus scores))"

text \<open>
  What \<open>argsort\<close> returns for \<open>keys\<close>: every index once, the keys read in that order
  ascending.
\<close>

definition is_argsort :: "real list \<Rightarrow> nat list \<Rightarrow> bool" where
  "is_argsort keys p =
     (distinct p \<and> set p = set [0..<length keys] \<and> sorted (map (\<lambda>i. keys ! i) p))"

text \<open>One such routine: the stable insertion sort of the indices by key.\<close>

definition argsort_stable :: "real list \<Rightarrow> nat list" where
  "argsort_stable keys = sort_key (\<lambda>i. keys ! i) [0..<length keys]"

section \<open>Block partitioning: proofs\<close>


lemma nblocks_val:
  fixes N :: nat and L H :: int
  shows "\<lceil>1 + real_of_int (int N - L) / real_of_int H\<rceil> = 1 + \<lceil>real_of_int (int N - L) / real_of_int H\<rceil>"
  by (simp only: add.commute [of 1] ceiling_add_one)

lemma last_block_reaches:
  fixes N :: nat and L H :: int
  assumes "0 < H"
  shows "int N - L \<le> \<lceil>real_of_int (int N - L) / real_of_int H\<rceil> * H"
proof -
  have "real_of_int (int N - L) / real_of_int H \<le> real_of_int \<lceil>real_of_int (int N - L) / real_of_int H\<rceil>"
    by (rule le_of_int_ceiling)
  then have "real_of_int (int N - L) \<le> real_of_int \<lceil>real_of_int (int N - L) / real_of_int H\<rceil> * real_of_int H"
    using assms by (simp only: pos_divide_le_eq of_int_0_less_iff)
  then have "real_of_int (int N - L) \<le> real_of_int (\<lceil>real_of_int (int N - L) / real_of_int H\<rceil> * H)"
    by (simp only: of_int_mult)
  then show ?thesis by (simp only: of_int_le_iff)
qed

lemma nblocks_nonneg:
  fixes N :: nat and L H :: int
  assumes "0 < H" "L \<le> int N"
  shows "0 \<le> \<lceil>real_of_int (int N - L) / real_of_int H\<rceil>"
proof -
  have "0 \<le> real_of_int (int N - L) / real_of_int H"
    using assms by simp
  then show ?thesis by (simp only: zero_le_ceiling)
qed

lemma block_member:
  "x \<in> set (thisidxs N L H k) \<longleftrightarrow> int k * H \<le> x \<and> x < int k * H + L \<and> x < int N"
  by (auto simp: thisidxs_def)

lemma cover_index:
  fixes N n :: nat and L H c :: int
  assumes H: "0 < H" and HL: "H \<le> L" and n: "n < N" and c0: "0 \<le> c" and c: "int N - L \<le> c * H"
  shows "\<exists>k. k < nat (1 + c) \<and> int n \<in> set (thisidxs N L H k)"
proof (cases "int n div H \<le> c")
  case True
  let ?k = "nat (int n div H)"
  have k0: "0 \<le> int n div H" using H by (simp add: pos_imp_zdiv_nonneg_iff)
  have a: "int n div H * H \<le> int n"
    using div_mult_mod_eq [of "int n" H] pos_mod_sign [OF H, of "int n"] by linarith
  have b: "int n < int n div H * H + H"
    using div_mult_mod_eq [of "int n" H] pos_mod_bound [OF H, of "int n"] by linarith
  have "?k < nat (1 + c)" using True k0 by linarith
  moreover have "int n \<in> set (thisidxs N L H ?k)"
    using a b k0 HL n by (simp add: block_member)
  ultimately show ?thesis by blast
next
  case False
  let ?k = "nat c"
  have "c * H \<le> int n div H * H" using False H by (simp add: mult_right_mono)
  also have "\<dots> \<le> int n"
    using div_mult_mod_eq [of "int n" H] pos_mod_sign [OF H, of "int n"] by linarith
  finally have a: "c * H \<le> int n" .
  have "?k < nat (1 + c)" using c0 by linarith
  moreover have "int n \<in> set (thisidxs N L H ?k)"
    using a c c0 n by (simp add: block_member)
  ultimately show ?thesis by blast
qed


text \<open>
  Claim C5 (amended).  For a series of \<open>N\<close> frames with \<open>BlockLen \<le> N\<close> and
  \<open>0 < BlockHop \<le> BlockLen\<close> the cell builds exactly
  \<open>ceil(1 + (N - BlockLen)/BlockHop)\<close> blocks; block \<open>k\<close> holds the indices
  \<open>k*BlockHop .. k*BlockHop+BlockLen-1\<close> that are below \<open>N\<close>; every index of
  \<open>[0, N)\<close> lies in some block, and no block holds an index outside \<open>[0, N-1]\<close>.
  Without \<open>BlockHop \<le> BlockLen\<close> consecutive blocks leave gaps (see the
  counterexample below).
\<close>

theorem blocks_cover_series:
  assumes L: "BlockLen \<le> int N" and H: "0 < BlockHop" and HL: "BlockHop \<le> BlockLen"
  shows "\<exists>bs. idxs N BlockLen BlockHop = Inr bs
      \<and> int (length bs) = \<lceil>1 + real_of_int (int N - BlockLen) / real_of_int BlockHop\<rceil>
      \<and> (\<forall>k < length bs. bs ! k =
            filter (\<lambda>x. x < int N) [int k * BlockHop .. int k * BlockHop + BlockLen - 1])
      \<and> covers bs N
      \<and> (\<forall>b \<in> set bs. \<forall>x \<in> set b. 0 \<le> x \<and> x \<le> int N - 1)"
proof -
  define c where "c = \<lceil>real_of_int (int N - BlockLen) / real_of_int BlockHop\<rceil>"
  define bs where "bs = map (thisidxs N BlockLen BlockHop) [0..<nat (1 + c)]"
  have c0: "0 \<le> c" unfolding c_def using H L by (rule nblocks_nonneg)
  have cH: "int N - BlockLen \<le> c * BlockHop" unfolding c_def using H by (rule last_block_reaches)
  have nb: "\<lceil>1 + real_of_int (int N - BlockLen) / real_of_int BlockHop\<rceil> = 1 + c"
    unfolding c_def by (rule nblocks_val)
  have run: "idxs N BlockLen BlockHop = Inr bs"
    using H c0 by (simp add: idxs_def NBlocks_def nb bs_def del: of_int_diff)
  have len: "int (length bs) = 1 + c" using c0 by (simp add: bs_def)
  have shape: "\<forall>k < length bs. bs ! k =
      filter (\<lambda>x. x < int N) [int k * BlockHop .. int k * BlockHop + BlockLen - 1]"
    by (simp add: bs_def thisidxs_def)
  have cov: "covers bs N"
    unfolding covers_def
  proof
    fix n assume "n \<in> set [0..<N]"
    then have "n < N" by simp
    then obtain k where "k < nat (1 + c)" "int n \<in> set (thisidxs N BlockLen BlockHop k)"
      using cover_index [OF H HL _ c0 cH] by blast
    then show "\<exists>b \<in> set bs. int n \<in> set b"
      by (auto simp: bs_def)
  qed
  have bound: "\<forall>b \<in> set bs. \<forall>x \<in> set b. 0 \<le> x \<and> x \<le> int N - 1"
  proof (intro ballI)
    fix b x assume "b \<in> set bs" "x \<in> set b"
    then obtain k where "x \<in> set (thisidxs N BlockLen BlockHop k)"
      by (auto simp: bs_def)
    then have "int k * BlockHop \<le> x" "x < int N" by (simp_all add: block_member)
    moreover have "0 \<le> int k * BlockHop" using H by simp
    ultimately show "0 \<le> x \<and> x \<le> int N - 1" by linarith
  qed
  show ?thesis using run len shape cov bound nb by (intro exI [of _ bs]) (simp del: of_int_diff)
qed

theorem blocks_cover_series_witness:
  "(4::int) \<le> int 10 \<and> (0::int) < 2 \<and> (2::int) \<le> 4
   \<and> idxs 10 4 2 = Inr [[0, 1, 2, 3], [2, 3, 4, 5], [4, 5, 6, 7], [6, 7, 8, 9]]
   \<and> covers [[0, 1, 2, 3], [2, 3, 4, 5], [4, 5, 6, 7], [6, 7, 8, 9]] 10"
proof -
  have run: "idxs 10 4 2 = Inr [[0, 1, 2, 3], [2, 3, 4, 5], [4, 5, 6, 7], [6, 7, 8, 9]]"
    by code_simp
  from blocks_cover_series [of 4 10 2] run show ?thesis by simp
qed

text \<open>
  Claim C5 as stated (every positive hop): with \<open>N = 10\<close>, \<open>BlockLen = 2\<close> and
  \<open>BlockHop = 5\<close> the blocks are \<open>[0,1]\<close>, \<open>[5,6]\<close> and an empty one, so the
  indices 2, 3, 4, 7, 8, 9 are in no block.
\<close>

theorem blocks_gap_counterexample:
  "(2::int) \<le> int 10 \<and> (0::int) < 5
   \<and> idxs 10 2 5 = Inr [[0, 1], [5, 6], []]
   \<and> \<not> covers [[0, 1], [5, 6], []] 10"
  by code_simp

section \<open>Normalisation: proofs\<close>

lemma sumsq_zeros: "sumsq (replicate n 0) = 0"
  by (simp add: sumsq_def sum_list_replicate)

lemma constant_row_nan:
  assumes "npmean (replicate n c) = c"
  shows "normalize_row npmean (replicate n c) = replicate n NaN"
proof -
  have "center_row npmean (replicate n c) = replicate n 0"
    by (simp add: center_row_def assms map_replicate_const)
  then show ?thesis
    by (simp add: normalize_row_def sumsq_zeros np_divide_def map_replicate_const Let_def)
qed

text \<open>
  Claim C6 (amended).  A row of the cloud whose entries are all equal and whose mean
  \<open>np.mean\<close> returns as that common value is mean-centred to zeros; its norm is zero
  and the unchecked division gives not-a-number in every entry.  The normalised
  cloud that goes to the persistence routine holds that row of not-a-numbers:
  nothing is flagged and no sentinel row is substituted.
\<close>

theorem constant_row_gives_nan:
  assumes "npmean (replicate n c) = c"
  shows "normalize_cloud npmean (A @ replicate n c # B) ! length A = replicate n NaN"
  using assms by (simp add: normalize_cloud_def nth_append constant_row_nan)

theorem constant_row_gives_nan_witness:
  "mean (replicate 3 2) = 2
   \<and> normalize_cloud mean ([[1, 3]] @ replicate 3 2 # []) ! length [[1, 3 :: real]]
       = replicate 3 NaN"
proof -
  have m: "mean (replicate 3 2) = 2"
    by (simp add: mean_def sum_list_replicate)
  from constant_row_gives_nan [of mean 3 2 "[[1, 3]]" "[]", OF m] m show ?thesis by simp
qed

text \<open>
  Claim C6 as stated: the static window \<open>[2, 2, 2]\<close>, whose mean is exactly 2, is
  normalised to three not-a-numbers, not to a row of zeros.
\<close>

theorem constant_row_counterexample:
  "mean [2, 2, 2] = 2
   \<and> normalize_cloud mean [[2, 2, 2]] = [[NaN, NaN, NaN]]
   \<and> normalize_cloud mean [[2, 2, 2]] \<noteq> [[Fin 0, Fin 0, Fin 0]]"
  by (simp add: normalize_cloud_def normalize_row_def center_row_def mean_def sumsq_def np_divide_def)

lemma sum_center: "r \<noteq> [] \<Longrightarrow> sum_list (map (\<lambda>x. x - mean r) r) = 0"
  by (simp add: mean_def sum_list_subtractf sum_list_triv)

lemma sumsq_nonneg: "0 \<le> sumsq r"
  by (induction r) (simp_all add: sumsq_def)

lemma sum_list_div: "sum_list (map (\<lambda>x. f x / s) c) = sum_list (map f c) / (s::real)"
  by (induction c) (simp_all add: add_divide_distrib)

lemma sumsq_scale: "sumsq (map (\<lambda>x. x / s) c) = sumsq c / s\<^sup>2"
  by (simp add: sumsq_def comp_def power_divide sum_list_div)

lemma normalized_row_unit:
  assumes nd: "\<not> degenerate npmean r" and exact: "npmean r = mean r"
  shows "normalize_row npmean r = map Fin (unit_row r)"
    and "mean (unit_row r) = 0"
    and "sqrt (sumsq (unit_row r)) = 1"
proof -
  define c where "c = map (\<lambda>x. x - mean r) r"
  define s where "s = sqrt (sumsq c)"
  have cr: "center_row npmean r = c" by (simp add: center_row_def exact c_def)
  have u: "unit_row r = map (\<lambda>x. x / s) c"
    by (simp add: unit_row_def c_def s_def comp_def)
  have nz: "sumsq c \<noteq> 0" using nd by (simp add: degenerate_def cr)
  then have s0: "s \<noteq> 0" by (simp add: s_def)
  have s2: "s\<^sup>2 = sumsq c" by (simp add: s_def sumsq_nonneg)
  have "r \<noteq> []" using nz by (auto simp: c_def sumsq_def)
  then have sc: "sum_list c = 0" unfolding c_def by (rule sum_center)
  show "normalize_row npmean r = map Fin (unit_row r)"
    using s0 nz by (simp add: normalize_row_def Let_def cr u np_divide_def comp_def s_def)
  have "sum_list (unit_row r) = sum_list c / s"
    using sum_list_div [of "\<lambda>x. x" s c] by (simp add: u)
  then show "mean (unit_row r) = 0" by (simp add: mean_def sc)
  have "sumsq (unit_row r) = sumsq c / s\<^sup>2" unfolding u by (rule sumsq_scale)
  then have "sumsq (unit_row r) = 1" using nz by (simp add: s2)
  then show "sqrt (sumsq (unit_row r)) = 1" by simp
qed

text \<open>
  Claim C7.  Every row of the normalised cloud that comes from a row that is not
  degenerate is that row mean-centred by its own mean and divided by its own
  Euclidean norm; it is finite, has mean 0 over its own entries and norm 1.  This is
  over the reals, with \<open>np.mean\<close> returning the exact mean of the row; the
  notebook's floating-point values agree up to rounding.
\<close>

theorem normalized_cloud_unit:
  assumes "i < length XS" and "\<not> degenerate npmean (XS ! i)"
    and "npmean (XS ! i) = mean (XS ! i)"
  shows "normalize_cloud npmean XS ! i = map Fin (unit_row (XS ! i))
     \<and> mean (unit_row (XS ! i)) = 0
     \<and> sqrt (sumsq (unit_row (XS ! i))) = 1"
  using assms normalized_row_unit [of npmean "XS ! i"] by (simp add: normalize_cloud_def)

theorem normalized_cloud_unit_witness:
  "(1::nat) < length [[2, 2], [1, 3 :: real]] \<and> \<not> degenerate mean ([[2, 2], [1, 3]] ! 1)
   \<and> normalize_cloud mean [[2, 2], [1, 3]] ! 1 = map Fin (unit_row [1, 3])
   \<and> unit_row [1, 3] = [- (1 / sqrt 2), 1 / sqrt 2]
   \<and> mean (unit_row [1, 3]) = 0
   \<and> sqrt (sumsq (unit_row [1, 3])) = 1"
proof -
  have h: "\<not> degenerate mean ([[2, 2], [1, 3]] ! 1)"
    by (simp add: degenerate_def center_row_def mean_def sumsq_def)
  have l: "(1::nat) < length [[2, 2], [1, 3 :: real]]" by simp
  have u: "unit_row [1, 3] = [- (1 / sqrt 2), 1 / sqrt 2]"
    by (simp add: unit_row_def mean_def sumsq_def)
  from normalized_cloud_unit [of 1 "[[2, 2], [1, 3]]" mean, OF l h] h l u show ?thesis by simp
qed

section \<open>Scoring: proofs\<close>

lemma np_max_Max: "xs \<noteq> [] \<Longrightarrow> np_max xs = Max (set xs)"
  by (induction xs rule: np_max.induct) simp_all

lemma score_step_res:
  "j < length res \<Longrightarrow>
   score_step PDs j (res, score) =
     ((if length PDs < 2 \<or> PDs ! 1 = [] then res else res[j := PeriodicityScore PDs]),
      (if length PDs < 2 \<or> PDs ! 1 = [] then score else max score (PeriodicityScore PDs)))"
  by (auto simp: score_step_def PeriodicityScore_def Let_def np_max_Max max_def)

lemma score_loop_res:
  "j + length PDss = length res \<Longrightarrow> \<forall>k < length PDss. res ! (j + k) = 0 \<Longrightarrow> 0 \<le> score \<Longrightarrow>
   score_loop PDss j (res, score) =
     (take j res @ map PeriodicityScore PDss, fold max (map PeriodicityScore PDss) score)"
proof (induction PDss arbitrary: j res score)
  case Nil
  then show ?case by simp
next
  case (Cons PDs rest)
  have j: "j < length res" using Cons.prems(1) by simp
  have z: "res ! j = 0" using Cons.prems(2) by force
  let ?res = "if length PDs < 2 \<or> PDs ! 1 = [] then res else res[j := PeriodicityScore PDs]"
  let ?sc = "if length PDs < 2 \<or> PDs ! 1 = [] then score else max score (PeriodicityScore PDs)"
  have len: "Suc j + length rest = length ?res" using Cons.prems(1) by simp
  have zeros: "\<forall>k < length rest. ?res ! (Suc j + k) = 0"
    using Cons.prems(2) by (auto simp: nth_list_update)
  have sc0: "0 \<le> ?sc" using Cons.prems(3) by (simp add: le_max_iff_disj)
  have tk: "take (Suc j) ?res = take j res @ [PeriodicityScore PDs]"
    using j z by (auto simp: take_Suc_conv_app_nth PeriodicityScore_def)
  have "score_loop (PDs # rest) j (res, score) = score_loop rest (Suc j) (?res, ?sc)"
    using j by (simp add: score_step_res)
  also have "\<dots> = (take (Suc j) ?res @ map PeriodicityScore rest, fold max (map PeriodicityScore rest) ?sc)"
    using Cons.IH [OF len zeros sc0] .
  finally have run: "score_loop (PDs # rest) j (res, score) =
      (take (Suc j) ?res @ map PeriodicityScore rest, fold max (map PeriodicityScore rest) ?sc)" .
  have "?sc = max (PeriodicityScore PDs) score"
  proof (cases "length PDs < 2 \<or> PDs ! 1 = []")
    case True
    then have "PeriodicityScore PDs = 0" by (simp add: PeriodicityScore_def)
    then show ?thesis using True Cons.prems(3) by (simp add: max_def)
  next
    case False
    then show ?thesis by (simp add: max.commute)
  qed
  then have "fold max (map PeriodicityScore rest) ?sc
      = fold max (map PeriodicityScore (PDs # rest)) score"
    by (simp only: list.map fold_Cons comp_apply)
  then show ?case using run tk by simp
qed

lemma fold_max_Max:
  fixes s :: real
  shows "fold max xs s = Max (insert s (set xs))"
proof (induction xs arbitrary: s)
  case Nil
  then show ?case by simp
next
  case (Cons x xs)
  have "fold max (x # xs) s = Max (insert (max x s) (set xs))" using Cons.IH by simp
  also have "\<dots> = Max (insert s (set (x # xs)))"
    by (cases "set xs = {}") (simp_all add: max.commute insert_commute max.left_commute)
  finally show ?case .
qed

lemma video_score_general:
  "video_score PDss =
     (map PeriodicityScore PDss, Max (insert 0 (set (map PeriodicityScore PDss))))"
  using score_loop_res [of 0 PDss "replicate (length PDss) 0" 0]
  by (simp add: video_score_def fold_max_Max)

lemma PeriodicityScore_nonneg:
  assumes "diagrams_ok PDs"
  shows "0 \<le> PeriodicityScore PDs"
proof (cases "length PDs < 2 \<or> PDs ! 1 = []")
  case True
  then show ?thesis by (simp add: PeriodicityScore_def)
next
  case False
  then obtain p where p: "p \<in> set (PDs ! 1)" by (cases "PDs ! 1") auto
  have "PDs ! 1 \<in> set PDs" using False by simp
  then have "(case p of (b, d) \<Rightarrow> b \<le> d)"
    using assms p by (auto simp: diagrams_ok_def list_all_iff)
  then have "0 \<le> (case p of (b, d) \<Rightarrow> d - b)" by (cases p) simp
  also have "\<dots> \<le> Max (set (map (\<lambda>(b, d). d - b) (PDs ! 1)))"
    using p by (intro Max_ge) auto
  finally show ?thesis using False by (simp add: PeriodicityScore_def)
qed

text \<open>
  Claim C8.  For the diagrams \<open>PDss\<close> that the persistence routine returns on the
  blocks of a video, the scoring never fails; the score of each block is the largest
  \<open>death - birth\<close> over its degree-1 pairs and 0 when that diagram is empty or
  absent; with at least one block and every death at or after its birth, the score
  of the video is the largest block score.
\<close>

theorem video_score_is_max:
  "fst (video_score PDss) = map PeriodicityScore PDss
   \<and> (PDss \<noteq> [] \<and> list_all diagrams_ok PDss \<longrightarrow>
        snd (video_score PDss) = Max (set (map PeriodicityScore PDss)))"
proof (intro conjI impI)
  show "fst (video_score PDss) = map PeriodicityScore PDss"
    by (simp add: video_score_general)
next
  assume h: "PDss \<noteq> [] \<and> list_all diagrams_ok PDss"
  have "\<forall>x \<in> set (map PeriodicityScore PDss). 0 \<le> x"
    using h by (auto simp: list_all_iff PeriodicityScore_nonneg)
  moreover have "set (map PeriodicityScore PDss) \<noteq> {}" using h by simp
  ultimately have "Max (insert 0 (set (map PeriodicityScore PDss)))
      = Max (set (map PeriodicityScore PDss))"
    by (metis List.finite_set Max_ge Max_in Max_insert max.absorb2 order.trans)
  then show "snd (video_score PDss) = Max (set (map PeriodicityScore PDss))"
    by (simp add: video_score_general)
qed

theorem video_score_is_max_witness:
  "[[[], [(1, 3), (2, 7)]], [[]], [[], []], [[], [(0, 1)]]] \<noteq> ([] :: diagram list list)
   \<and> list_all diagrams_ok [[[], [(1, 3), (2, 7)]], [[]], [[], []], [[], [(0, 1)]]]
   \<and> video_score [[[], [(1, 3), (2, 7)]], [[]], [[], []], [[], [(0, 1)]]] = ([5, 0, 0, 1], 5)"
proof -
  have ok: "list_all diagrams_ok [[[], [(1, 3), (2, 7)]], [[]], [[], []], [[], [(0, 1)]]]"
    by (simp add: diagrams_ok_def)
  have ne: "[[[], [(1, 3), (2, 7)]], [[]], [[], []], [[], [(0, 1)]]] \<noteq> ([] :: diagram list list)"
    by simp
  from video_score_is_max [of "[[[], [(1, 3), (2, 7)]], [[]], [[], []], [[], [(0, 1)]]]"] ok ne
  show ?thesis
    by (simp add: PeriodicityScore_def prod_eq_iff)
qed

lemma block_loop_scores:
  "list_all (\<lambda>idx. \<exists>XS. block_cloud npmean X P idx win dim' = Inr XS) bs \<Longrightarrow>
   block_loop rips npmean X P win dim' bs j st =
     Inr (score_loop (map (\<lambda>idx. rips (projr (block_cloud npmean X P idx win dim'))) bs) j st)"
proof (induction bs arbitrary: j st)
  case Nil
  then show ?case by simp
next
  case (Cons idx rest)
  from Cons.prems obtain XS where XS: "block_cloud npmean X P idx win dim' = Inr XS"
    and rest: "list_all (\<lambda>idx. \<exists>XS. block_cloud npmean X P idx win dim' = Inr XS) rest"
    by auto
  show ?case
    using Cons.IH [OF rest, of "Suc j" "score_step (rips XS) j st"] by (simp add: XS)
qed

lemma kth_video_scores:
  assumes "idxs (length X) BlockLen BlockHop = Inr bs"
    and "list_all (\<lambda>idx. \<exists>XS. block_cloud npmean X P idx win dim' = Inr XS) bs"
  shows "kth_video rips npmean X P BlockLen BlockHop win dim' =
     Inr (video_score (map (\<lambda>idx. rips (projr (block_cloud npmean X P idx win dim'))) bs))"
  using assms by (simp add: kth_video_def video_score_def block_loop_scores)

section \<open>Embedding parameters of a block: proofs\<close>

lemma filter_upto_below:
  "filter (\<lambda>x. x < n) [a..b] = [a..min b (n - 1)]"
proof (induction a b rule: upto.induct)
  case (1 i j)
  show ?case
  proof (cases "i \<le> j")
    case False
    then show ?thesis by simp
  next
    case True
    note ij = this
    show ?thesis
    proof (cases "i < n")
      case True
      then have "filter (\<lambda>x. x < n) [i..j] = i # [i + 1..min j (n - 1)]"
        using ij 1 by (simp add: upto_rec1 [of i j])
      also have "\<dots> = [i..min j (n - 1)]"
        using True ij by (simp add: upto_rec1 [of i "min j (n - 1)"])
      finally show ?thesis .
    next
      case False
      then have "\<forall>x \<in> set [i..j]. \<not> x < n" by auto
      then have "filter (\<lambda>x. x < n) [i..j] = []" by (simp add: filter_empty_conv)
      then show ?thesis using False by simp
    qed
  qed
qed

lemma thisidxs_length:
  "int (length (thisidxs N BlockLen BlockHop k)) =
     max 0 (min (int N) (int k * BlockHop + BlockLen) - int k * BlockHop)"
  by (simp add: thisidxs_def filter_upto_below min_def)

text \<open>
  Claim C9.  For block \<open>k\<close> of the partition, with \<open>dim \<noteq> 1\<close> and the block not
  empty, the embedding runs with \<open>tau = win/(dim-1)\<close> and
  \<open>dT = (blockLen - dim*tau)/blockLen\<close>, where \<open>blockLen\<close> is the number of indices
  that the block keeps after clamping to the series; the cloud of these parameters
  is normalised and handed on.
\<close>

theorem block_params_clamped:
  assumes "dim' \<noteq> 1" and "int k * BlockHop < int N" and "0 < BlockLen"
    and "idx = thisidxs N BlockLen BlockHop k"
    and "blockLen = min (int N) (int k * BlockHop + BlockLen) - int k * BlockHop"
    and "tau = real_of_int win / real_of_int (dim' - 1)"
    and "dT = (real_of_int blockLen - real_of_int dim' * tau) / real_of_int blockLen"
  shows "int (length idx) = blockLen \<and> 0 < blockLen
     \<and> block_params win dim' idx = Inr (tau, dT)
     \<and> block_cloud npmean X P idx win dim' =
         (case rows_at X idx of
            Inl e \<Rightarrow> Inl e
          | Inr B \<Rightarrow>
              (case getSlidingWindowVideo B P dim' tau dT of
                 Inl e \<Rightarrow> Inl e
               | Inr XS \<Rightarrow> Inr (normalize_cloud npmean XS)))"
proof -
  have pos: "0 < blockLen" using assms(2,3,5) by simp
  have len: "int (length idx) = blockLen"
    using pos by (simp add: assms(4,5) thisidxs_length)
  then have rl: "real (length idx) = real_of_int blockLen"
    by (metis of_int_of_nat_eq)
  have ne: "length idx \<noteq> 0" using len pos by auto
  have par: "block_params win dim' idx = Inr (tau, dT)"
    using assms(1) ne by (simp add: block_params_def Let_def rl assms(6,7) del: of_int_diff)
  show ?thesis using len pos par by (simp add: block_cloud_def)
qed

theorem block_params_clamped_witness:
  "(3::int) \<noteq> 1 \<and> int 1 * 4 < int 10 \<and> (0::int) < 8
   \<and> thisidxs 10 8 4 1 = [4, 5, 6, 7, 8, 9]
   \<and> block_params 2 3 [4, 5, 6, 7, 8, 9] = Inr (1, 1 / 2)"
proof -
  have idx: "thisidxs 10 8 4 1 = [4, 5, 6, 7, 8, 9]" by code_simp
  from block_params_clamped [of 3 1 4 10 8 "thisidxs 10 8 4 1" 6 1 2 "1 / 2"] idx
  show ?thesis by simp
qed

section \<open>Ranking: proofs\<close>

text \<open>
  Claim C10.  Whatever order \<open>argsort\<close> gives to equal keys, the printed ranking
  holds every 1-based video index exactly once, reads the scores in descending
  order, and puts a video with a strictly larger score before one with a strictly
  smaller score.
\<close>

theorem ranking_descending:
  assumes "is_argsort (map uminus scores) (argsort (map uminus scores))"
  shows "length (ranking argsort scores) = length scores
     \<and> distinct (ranking argsort scores)
     \<and> set (ranking argsort scores) = {1..length scores}
     \<and> sorted (rev (map (\<lambda>v. scores ! (v - 1)) (ranking argsort scores)))
     \<and> (\<forall>a b. a < length scores \<and> b < length scores
           \<and> scores ! (ranking argsort scores ! b - 1) < scores ! (ranking argsort scores ! a - 1)
           \<longrightarrow> a < b)"
proof -
  define p where "p = argsort (map uminus scores)"
  define n where "n = length scores"
  have r: "ranking argsort scores = map Suc p" by (simp add: ranking_def p_def)
  have d: "distinct p" and s: "set p = {0..<n}"
    and srt: "sorted (map (\<lambda>i. map uminus scores ! i) p)"
    using assms by (simp_all add: is_argsort_def p_def n_def)
  have len: "length p = n"
    using d s by (metis card_atLeastLessThan diff_zero distinct_card)
  have inb: "\<And>a. a < n \<Longrightarrow> p ! a < n"
    using s len by (metis atLeastLessThan_iff nth_mem)
  have key: "\<And>a. a < n \<Longrightarrow> map uminus scores ! (p ! a) = - scores ! (p ! a)"
    using inb by (simp add: n_def)
  have mono: "\<And>a b. a \<le> b \<Longrightarrow> b < n \<Longrightarrow> scores ! (p ! b) \<le> scores ! (p ! a)"
  proof -
    fix a b assume ab: "a \<le> b" "b < n"
    then have "map (\<lambda>i. map uminus scores ! i) p ! a \<le> map (\<lambda>i. map uminus scores ! i) p ! b"
      using srt len by (simp add: sorted_iff_nth_mono del: nth_map)
    then show "scores ! (p ! b) \<le> scores ! (p ! a)"
      using ab len key [of a] key [of b] by simp
  qed
  have c1: "length (ranking argsort scores) = length scores" by (simp add: r len n_def)
  have c2: "distinct (ranking argsort scores)" by (simp add: r d distinct_map)
  have c3: "set (ranking argsort scores) = {1..length scores}"
    by (simp add: r s n_def image_Suc_atLeastLessThan atLeastLessThanSuc_atLeastAtMost)
  have c4: "sorted (rev (map (\<lambda>v. scores ! (v - 1)) (ranking argsort scores)))"
    unfolding sorted_iff_nth_mono
  proof (intro allI impI)
    fix i j assume ij: "i \<le> j" "j < length (rev (map (\<lambda>v. scores ! (v - 1)) (ranking argsort scores)))"
    then have j: "j < n" by (simp add: r len)
    have "scores ! (p ! (n - Suc i)) \<le> scores ! (p ! (n - Suc j))"
      using ij j by (intro mono) auto
    then show "rev (map (\<lambda>v. scores ! (v - 1)) (ranking argsort scores)) ! i
        \<le> rev (map (\<lambda>v. scores ! (v - 1)) (ranking argsort scores)) ! j"
      using ij j by (simp add: r len rev_nth)
  qed
  have c5: "\<forall>a b. a < length scores \<and> b < length scores
           \<and> scores ! (ranking argsort scores ! b - 1) < scores ! (ranking argsort scores ! a - 1)
           \<longrightarrow> a < b"
  proof (intro allI impI)
    fix a b
    assume h: "a < length scores \<and> b < length scores
           \<and> scores ! (ranking argsort scores ! b - 1) < scores ! (ranking argsort scores ! a - 1)"
    have ab: "a < length p" "b < length p" using h len by (simp_all add: n_def)
    have lt: "scores ! (p ! b) < scores ! (p ! a)"
      using h ab by (simp add: r)
    show "a < b"
    proof (rule ccontr)
      assume "\<not> a < b"
      then have "b \<le> a" by simp
      then have "scores ! (p ! a) \<le> scores ! (p ! b)" using h by (intro mono) (simp_all add: n_def)
      then show False using lt by simp
    qed
  qed
  show ?thesis using c1 c2 c3 c4 c5 by blast
qed

theorem ranking_descending_witness:
  "is_argsort (map uminus [1, 3, 2, 3]) (argsort_stable (map uminus [1, 3, 2, 3]))
   \<and> ranking argsort_stable [1, 3, 2, 3] = [2, 4, 3, 1]
   \<and> set (ranking argsort_stable [1, 3, 2, 3]) = {1..length [1, 3, 2, 3 :: real]}"
proof -
  have run: "argsort_stable [- 1, - 3, - 2, - 3] = [1, 3, 2, 0]" by code_simp
  have "is_argsort [- 1, - 3, - 2, - 3] [1, 3, 2, 0]" by code_simp
  then have h: "is_argsort (map uminus [1, 3, 2, 3]) (argsort_stable (map uminus [1, 3, 2, 3]))"
    by (simp add: run)
  have rk: "ranking argsort_stable [1, 3, 2, 3] = [2, 4, 3, 1]"
    by (simp add: ranking_def run)
  from ranking_descending [of "[1, 3, 2, 3]" argsort_stable] h rk show ?thesis by blast
qed

section \<open>PCA of the frames: proofs\<close>

lemma sqrt_25: "sqrt 25 = 5"
  using real_sqrt_abs [of 5] by simp

lemma scale_entry:
  "np_times v (np_sqrt l) = (if l < 0 then NaN else Fin (v * sqrt l))"
  by (simp add: np_sqrt_def)

lemma scale_row_nonneg:
  "list_all (\<lambda>l. 0 \<le> l) lam \<Longrightarrow>
   map2 (\<lambda>v l. if l < 0 then NaN else Fin (v * sqrt l)) row lam
     = map2 (\<lambda>v l. Fin (v * sqrt (max l 0))) row lam"
  by (induction row lam rule: list_induct2') (simp_all add: max_def)

text \<open>
  Claim C3 (amended).  With \<open>(lam, V)\<close> the result of the eigensolver on the Gram
  matrix \<open>X X\<^sup>T\<close>, \<open>getPCAVideo\<close> returns \<open>V\<close> with column \<open>j\<close> scaled by
  \<open>sqrt(lam[j])\<close>; nothing is clamped, so a column whose eigenvalue is negative is
  not-a-number throughout.  When every returned eigenvalue is non-negative the
  result is \<open>V\<close> scaled by \<open>sqrt(max(lam, 0))\<close> and every entry is finite.
\<close>

theorem getPCAVideo_scaling:
  assumes "eigh (ICov X) = (lam, V)"
  shows "getPCAVideo eigh X =
           map (\<lambda>row. map2 (\<lambda>v l. if l < 0 then NaN else Fin (v * sqrt l)) row lam) V
     \<and> (list_all (\<lambda>l. 0 \<le> l) lam \<longrightarrow>
          getPCAVideo eigh X = map (\<lambda>row. map2 (\<lambda>v l. Fin (v * sqrt (max l 0))) row lam) V)"
  using assms by (simp add: getPCAVideo_def scale_entry scale_row_nonneg)

theorem getPCAVideo_scaling_witness:
  "(\<lambda>G. ([0, 25], [[3 / 5, 4 / 5], [- (4 / 5), 3 / 5]])) (ICov [[0, 4], [0, 3]])
       = ([0, 25], [[3 / 5, 4 / 5], [- (4 / 5), 3 / 5]])
   \<and> list_all (\<lambda>l. 0 \<le> l) [0, 25 :: real]
   \<and> getPCAVideo (\<lambda>G. ([0, 25], [[3 / 5, 4 / 5], [- (4 / 5), 3 / 5]])) [[0, 4], [0, 3]]
       = [[Fin 0, Fin 4], [Fin 0, Fin 3]]"
  using getPCAVideo_scaling [of "\<lambda>G. ([0, 25], [[3 / 5, 4 / 5], [- (4 / 5), 3 / 5]])"
      "[[0, 4], [0, 3]]" "[0, 25]" "[[3 / 5, 4 / 5], [- (4 / 5), 3 / 5]]"]
  by (simp add: sqrt_25)

text \<open>
  Claim C3 as stated.  The two frames \<open>[2]\<close> and \<open>[5]\<close> have the singular Gram matrix
  \<open>[[4, 10], [10, 25]]\<close> with eigenvalues 0 and 29.  In double precision the
  symmetric solver returns the zero eigenvalue as \<open>-1/2^51\<close> (about \<open>-4.4e-16\<close>),
  with the eigenvectors below; the first column of the result is then
  not-a-number, where clamping would have given zeros.
\<close>

theorem getPCAVideo_negative_counterexample:
  "ICov [[2], [5]] = [[4, 10], [10, 25]]
   \<and> map hd (getPCAVideo
         (\<lambda>G. ([- (1 / 2 ^ 51), 29],
               [[- (8362974558186089 / 2 ^ 53), 836297455818609 / 2 ^ 51],
                [836297455818609 / 2 ^ 51, 8362974558186089 / 2 ^ 53]]))
         [[2], [5]]) = [NaN, NaN]
   \<and> map hd (map (\<lambda>row. map2 (\<lambda>v l. Fin (v * sqrt (max l 0))) row [- (1 / 2 ^ 51), 29])
         [[- (8362974558186089 / 2 ^ 53), 836297455818609 / 2 ^ 51],
          [836297455818609 / 2 ^ 51, 8362974558186089 / 2 ^ 53]]) = [Fin 0, Fin 0]"
  by (simp add: getPCAVideo_def np_sqrt_def ICov_def dot_def)

lemma dot_scaled:
  "length a = length lam \<Longrightarrow> length lam = length b \<Longrightarrow> list_all (\<lambda>l. 0 \<le> l) lam \<Longrightarrow>
   dot (map2 (\<lambda>v l. v * sqrt l) a lam) (map2 (\<lambda>v l. v * sqrt l) b lam)
     = dot (map2 (*) a lam) b"
proof (induction a lam b rule: list_induct3)
  case Nil
  then show ?case by (simp add: dot_def)
next
  case (Cons x xs l ls y ys)
  then show ?case by (simp add: dot_def algebra_simps)
qed

lemma sumsq_diff:
  "length a = length b \<Longrightarrow>
   sum_list (map (\<lambda>x. x\<^sup>2) (map2 (-) a b)) = dot a a - 2 * dot a b + dot b b"
proof (induction a b rule: list_induct2)
  case Nil
  then show ?case by (simp add: dot_def)
next
  case (Cons x xs y ys)
  then show ?case by (simp add: dot_def power2_eq_square algebra_simps)
qed

lemma ICov_entry:
  "i < length X \<Longrightarrow> j < length X \<Longrightarrow> ICov X ! i ! j = dot (X ! i) (X ! j)"
  by (simp add: ICov_def)

text \<open>
  Claim C4.  For a rectangular frame matrix \<open>X\<close>, when the solver returns a symmetric
  eigendecomposition of the Gram matrix with non-negative eigenvalues, the output is
  finite and the Euclidean distance between its rows \<open>i\<close> and \<open>j\<close> equals the distance
  between frames \<open>i\<close> and \<open>j\<close> of \<open>X\<close> (exactly, over the reals).
\<close>

theorem getPCAVideo_isometry:
  assumes rect: "list_all (\<lambda>r. length r = P) X"
    and eig: "eigh (ICov X) = (lam, V)"
    and ok: "eigh_ok (ICov X) lam V"
    and nonneg: "list_all (\<lambda>l. 0 \<le> l) lam"
    and i: "i < length X" and j: "j < length X"
  shows "\<exists>Y. getPCAVideo eigh X = map (map Fin) Y
           \<and> dist_rows (Y ! i) (Y ! j) = dist_rows (X ! i) (X ! j)"
proof -
  define n where "n = length X"
  define Y where "Y = map (\<lambda>row. map2 (\<lambda>v l. v * sqrt l) row lam) V"
  have nG: "length (ICov X) = n" by (simp add: ICov_def n_def)
  have ll: "length lam = n" and lV: "length V = n"
    and rows: "\<forall>r \<in> set V. length r = n"
    and rec: "\<forall>a < n. \<forall>b < n. ICov X ! a ! b = dot (map2 (*) (V ! a) lam) (V ! b)"
    using ok by (simp_all add: eigh_ok_def Let_def nG list_all_iff)
  have lrow: "\<And>a. a < n \<Longrightarrow> length (V ! a) = length lam"
    using rows lV ll by simp
  have run: "getPCAVideo eigh X = map (map Fin) Y"
  proof -
    have "map2 (\<lambda>v l. Fin (v * sqrt (max l 0))) row lam
        = map Fin (map2 (\<lambda>v l. v * sqrt l) row lam)" for row
      using nonneg by (induction row lam rule: list_induct2') (simp_all add: max_def)
    then show ?thesis
      using nonneg eig
      by (simp add: getPCAVideo_def scale_entry scale_row_nonneg Y_def)
  qed
  have gram: "dot (Y ! a) (Y ! b) = dot (X ! a) (X ! b)" if "a < n" "b < n" for a b
  proof -
    have "dot (Y ! a) (Y ! b) = dot (map2 (*) (V ! a) lam) (V ! b)"
      using that lV lrow nonneg by (simp add: Y_def dot_scaled)
    also have "\<dots> = ICov X ! a ! b" using rec that by simp
    also have "\<dots> = dot (X ! a) (X ! b)" using that by (simp add: ICov_entry n_def)
    finally show ?thesis .
  qed
  have lY: "length (Y ! i) = length (Y ! j)"
    using i j lV lrow by (simp add: Y_def n_def)
  have lX: "length (X ! i) = length (X ! j)"
    using rect i j by (simp add: list_all_iff)
  have "sum_list (map (\<lambda>x. x\<^sup>2) (map2 (-) (Y ! i) (Y ! j)))
      = dot (Y ! i) (Y ! i) - 2 * dot (Y ! i) (Y ! j) + dot (Y ! j) (Y ! j)"
    by (rule sumsq_diff [OF lY])
  also have "\<dots> = dot (X ! i) (X ! i) - 2 * dot (X ! i) (X ! j) + dot (X ! j) (X ! j)"
    using i j by (simp add: gram n_def)
  also have "\<dots> = sum_list (map (\<lambda>x. x\<^sup>2) (map2 (-) (X ! i) (X ! j)))"
    by (rule sumsq_diff [OF lX, symmetric])
  finally have "dist_rows (Y ! i) (Y ! j) = dist_rows (X ! i) (X ! j)"
    by (simp only: dist_rows_def)
  then show ?thesis using run by blast
qed

theorem getPCAVideo_isometry_witness:
  "list_all (\<lambda>r. length r = 2) [[3 / 5, 8 / 5], [- (4 / 5), 6 / 5 :: real]]
   \<and> eigh_ok (ICov [[3 / 5, 8 / 5], [- (4 / 5), 6 / 5]]) [1, 4] [[3 / 5, 4 / 5], [- (4 / 5), 3 / 5]]
   \<and> list_all (\<lambda>l. 0 \<le> l) [1, 4 :: real]
   \<and> (\<exists>Y. getPCAVideo (\<lambda>G. ([1, 4], [[3 / 5, 4 / 5], [- (4 / 5), 3 / 5]]))
               [[3 / 5, 8 / 5], [- (4 / 5), 6 / 5]] = map (map Fin) Y
          \<and> dist_rows (Y ! 0) (Y ! 1) = dist_rows [3 / 5, 8 / 5] [- (4 / 5), 6 / 5])"
proof -
  have ok: "eigh_ok (ICov [[3 / 5, 8 / 5], [- (4 / 5), 6 / 5]]) [1, 4] [[3 / 5, 4 / 5], [- (4 / 5), 3 / 5]]"
    by code_simp
  have rect: "list_all (\<lambda>r. length r = 2) [[3 / 5, 8 / 5], [- (4 / 5), 6 / 5 :: real]]"
    by simp
  have nonneg: "list_all (\<lambda>l. 0 \<le> l) [1, 4 :: real]" by simp
  from getPCAVideo_isometry [of 2 "[[3 / 5, 8 / 5], [- (4 / 5), 6 / 5]]"
      "\<lambda>G. ([1, 4], [[3 / 5, 4 / 5], [- (4 / 5), 3 / 5]])" "[1, 4]"
      "[[3 / 5, 4 / 5], [- (4 / 5), 3 / 5]]" 0 1, OF rect _ ok nonneg]
  have "\<exists>Y. getPCAVideo (\<lambda>G. ([1, 4], [[3 / 5, 4 / 5], [- (4 / 5), 3 / 5]]))
               [[3 / 5, 8 / 5], [- (4 / 5), 6 / 5]] = map (map Fin) Y
          \<and> dist_rows (Y ! 0) (Y ! 1) = dist_rows [3 / 5, 8 / 5] [- (4 / 5), 6 / 5]"
    by simp
  then show ?thesis using ok rect nonneg by blast
qed

section \<open>Sliding window embedding: proofs\<close>

lemma windows_when_short:
  assumes "0 < dT" and "real N < real_of_int dim' * Tau"
  shows "\<lfloor>(real N - real_of_int dim' * Tau) / dT\<rfloor> < 0"
proof -
  have "(real N - real_of_int dim' * Tau) / dT < 0"
    using assms by (simp add: divide_neg_pos)
  then show ?thesis by (simp only: floor_less_zero)
qed

text \<open>
  Claim C2 (amended).  With a positive delay and step: when \<open>dim*tau\<close> equals the
  series length the embedder returns a cloud without rows; when \<open>dim*tau\<close> exceeds
  the series length the window count is negative and the allocation of the result
  raises \<open>ValueError\<close>.
\<close>

theorem short_series_embedding:
  assumes "0 < Tau" and "0 < dT"
  shows "(real_of_int dim' * Tau = real (length I) \<longrightarrow>
            getSlidingWindowVideo I P dim' Tau dT = Inr [])
     \<and> (real (length I) < real_of_int dim' * Tau \<longrightarrow>
            getSlidingWindowVideo I P dim' Tau dT = Inl ValueError)"
proof (intro conjI impI)
  assume eq: "real_of_int dim' * Tau = real (length I)"
  have "0 \<le> real_of_int dim' * Tau" by (simp add: eq)
  then have "0 \<le> real_of_int dim'" using assms(1) by (simp add: zero_le_mult_iff)
  then have "0 \<le> dim' * int P" by simp
  then show "getSlidingWindowVideo I P dim' Tau dT = Inr []"
    using assms(2) by (simp add: getSlidingWindowVideo_def eq Let_def not_less [symmetric])
next
  assume "real (length I) < real_of_int dim' * Tau"
  then have "\<lfloor>(real (length I) - real_of_int dim' * Tau) / dT\<rfloor> < 0"
    using assms(2) by (intro windows_when_short)
  then show "getSlidingWindowVideo I P dim' Tau dT = Inl ValueError"
    using assms(2) by (simp add: getSlidingWindowVideo_def Let_def)
qed

theorem short_series_embedding_witness:
  "(0::real) < 1
   \<and> real_of_int 2 * 1 = real (length [[1, 2], [3, 4 :: real]])
   \<and> getSlidingWindowVideo [[1, 2], [3, 4]] 2 2 1 1 = Inr []
   \<and> real (length [[1, 2], [3, 4 :: real]]) < real_of_int 3 * 1
   \<and> getSlidingWindowVideo [[1, 2], [3, 4]] 2 3 1 1 = Inl ValueError"
  using short_series_embedding [of 1 1 2 "[[1, 2], [3, 4]]" 2]
    short_series_embedding [of 1 1 3 "[[1, 2], [3, 4]]" 2]
  by simp

text \<open>
  Claim C2 as stated: two frames with \<open>dim = 3\<close>, \<open>tau = 1\<close>, \<open>dT = 1\<close> have
  \<open>dim*tau \<ge> N\<close>, and the call raises instead of returning a cloud without rows.
\<close>

theorem short_series_counterexample:
  "real (length [[1, 2], [3, 4 :: real]]) \<le> real_of_int 3 * 1
   \<and> getSlidingWindowVideo [[1, 2], [3, 4]] 2 3 1 1 = Inl ValueError"
  by (simp add: getSlidingWindowVideo_def)

subsection \<open>The rows of the cloud\<close>

lemma map2_same_len_end:
  fixes a b :: "real list"
  shows "length a = length b \<Longrightarrow> map2 (\<lambda>x y. x + 1 * (y - x)) a b = b"
  by (induction a b rule: list_induct2) simp_all

lemma map2_same_len_start:
  fixes a b :: "real list"
  shows "length a = length b \<Longrightarrow> map2 (\<lambda>x y. x + 0 * (y - x)) a b = a"
  by (induction a b rule: list_induct2) simp_all

lemma frame_at_knot:
  assumes "list_all (\<lambda>r. length r = P) I" and "Suc m < length I"
  shows "frame_at I (real m) = I ! m"
proof -
  have "length (I ! m) = length (I ! Suc m)"
    using assms by (simp add: list_all_iff)
  then show ?thesis
    using map2_same_len_start [of "I ! m" "I ! Suc m"] by (simp add: frame_at_def)
qed

lemma lerp_grid_consecutive:
  assumes rect: "list_all (\<lambda>r. length r = P) I"
    and e: "e < length I"
  shows "real s \<le> t \<Longrightarrow> nat \<lfloor>t\<rfloor> < e \<Longrightarrow>
         lerp_grid (map real [s..<Suc e]) (map (\<lambda>j. I ! j) [s..<Suc e]) t = frame_at I t"
proof (induction "nat \<lfloor>t\<rfloor> - s" arbitrary: s)
  case 0
  have t0: "0 \<le> t" using "0.prems"(1) by (meson of_nat_0_le_iff order_trans)
  have sm: "int s \<le> \<lfloor>t\<rfloor>" using "0.prems"(1) by (simp add: le_floor_iff)
  then have m: "nat \<lfloor>t\<rfloor> = s" using "0.hyps" by linarith
  then have se: "s < e" using "0.prems"(2) by simp
  have fl: "\<lfloor>t\<rfloor> = int s" using m t0 by (metis sm nat_0_le order_trans of_nat_0_le_iff)
  have lt: "t < real s + 1" using fl by linarith
  have grid: "[s..<Suc e] = s # Suc s # [Suc (Suc s)..<Suc e]"
    using se by (simp add: upt_conv_Cons)
  show ?case
    unfolding grid using lt fl by (simp add: frame_at_def m del: upt_Suc)
next
  case (Suc d)
  have sm: "int s \<le> \<lfloor>t\<rfloor>" using Suc.prems(1) by (simp add: le_floor_iff)
  have ms: "Suc s \<le> nat \<lfloor>t\<rfloor>" using Suc.hyps(2) by linarith
  then have se: "Suc s < e" using Suc.prems(2) by simp
  have "int (Suc s) \<le> \<lfloor>t\<rfloor>" using ms by linarith
  then have ge: "real (Suc s) \<le> t" using le_floor_iff [of "int (Suc s)" t] by simp
  have grid: "[s..<Suc e] = s # Suc s # [Suc (Suc s)..<Suc e]"
    using se by (simp add: upt_conv_Cons)
  have ne: "[Suc (Suc s)..<Suc e] \<noteq> []" using se by simp
  show ?case
  proof (cases "t \<le> real (Suc s)")
    case True
    then have t: "t = real (Suc s)" using ge by simp
    have "length (I ! s) = length (I ! Suc s)"
      using rect se e by (simp add: list_all_iff)
    then have "map2 (\<lambda>a b. a + 1 * (b - a)) (I ! s) (I ! Suc s) = I ! Suc s"
      by (rule map2_same_len_end)
    moreover have "frame_at I t = I ! Suc s"
      unfolding t using rect se e by (intro frame_at_knot) simp_all
    ultimately show ?thesis
      unfolding grid by (simp add: t del: upt_Suc)
  next
    case False
    have "d = nat \<lfloor>t\<rfloor> - Suc s" using Suc.hyps(2) by simp
    then have "lerp_grid (map real [Suc s..<Suc e]) (map (\<lambda>j. I ! j) [Suc s..<Suc e]) t = frame_at I t"
      using ge Suc.prems(2) by (intro Suc.hyps(1))
    moreover have "[Suc s..<Suc e] = Suc s # [Suc (Suc s)..<Suc e]"
      using se by (simp add: upt_conv_Cons)
    ultimately show ?thesis
      unfolding grid using False ne by (simp del: upt_Suc)
  qed
qed

lemma py_slice_range:
  assumes "0 \<le> a" and "a \<le> b" and "b < int N"
  shows "py_slice [0..<N] a (b + 1) = [nat a..<Suc (nat b)]"
proof -
  have "take (nat (b + 1 - a)) (drop (nat a) [0..<N]) = [nat a..<Suc (nat b)]"
  proof -
    have "drop (nat a) [0..<N] = [nat a..<N]" by (simp add: drop_upt)
    moreover have "nat a + nat (b + 1 - a) \<le> N" using assms by linarith
    moreover have "nat a + nat (b + 1 - a) = Suc (nat b)" using assms by linarith
    ultimately show ?thesis by (simp add: take_upt del: upt_Suc)
  qed
  then show ?thesis using assms by (simp add: py_slice_def Let_def min_def del: upt_Suc)
qed

lemma interp_window:
  assumes rect: "list_all (\<lambda>r. length r = P) I" and P2: "2 \<le> P"
    and e: "e < length I" and se: "s < e"
    and srt: "sorted ts"
    and inside: "\<forall>t \<in> set ts. real s \<le> t \<and> nat \<lfloor>t\<rfloor> < e"
  shows "interp2d_linear P (map real [s..<Suc e]) (map (\<lambda>j. I ! j) [s..<Suc e]) ts
           = Inr (map (frame_at I) ts)"
proof -
  have len: "\<not> length (map real [s..<Suc e]) < 2" using se by simp
  have h: "hd (map real [s..<Suc e]) = real s"
    using se by (simp add: hd_map upt_conv_Cons del: upt_Suc)
  have l: "last (map real [s..<Suc e]) = real e"
    using se by (simp add: last_map)
  have st: "sort ts = ts" using srt by (simp add: sort_key_id_if_sorted)
  have each: "lerp_grid (map real [s..<Suc e]) (map (\<lambda>j. I ! j) [s..<Suc e])
                (max (real s) (min (real e) t)) = frame_at I t" if "t \<in> set ts" for t
  proof -
    have lo: "real s \<le> t" and fl: "nat \<lfloor>t\<rfloor> < e" using inside that by auto
    have "0 \<le> t" using lo by (meson of_nat_0_le_iff order_trans)
    then have "\<lfloor>t\<rfloor> < int e" using fl by linarith
    then have "t < real e" using floor_less_iff [of t "int e"] by simp
    then have "max (real s) (min (real e) t) = t" using lo by simp
    then show ?thesis using lerp_grid_consecutive [OF rect e lo fl] by simp
  qed
  have "map (\<lambda>t. lerp_grid (map real [s..<Suc e]) (map (\<lambda>j. I ! j) [s..<Suc e])
            (max (real s) (min (real e) t))) ts = map (frame_at I) ts"
    using each by (intro map_cong) auto
  then show ?thesis
    using P2 len unfolding interp2d_linear_def h l st by (simp del: upt_Suc)
qed

lemma window_times:
  assumes d: "1 \<le> dim'"
  shows "map (\<lambda>k. dT * real i + Tau * real k) [0..<nat dim'] \<noteq> []"
    and "hd (map (\<lambda>k. dT * real i + Tau * real k) [0..<nat dim']) = dT * real i"
    and "last (map (\<lambda>k. dT * real i + Tau * real k) [0..<nat dim'])
           = dT * real i + Tau * real_of_int (dim' - 1)"
proof -
  have pos: "0 < nat dim'" using d by simp
  then show "map (\<lambda>k. dT * real i + Tau * real k) [0..<nat dim'] \<noteq> []" by simp
  show "hd (map (\<lambda>k. dT * real i + Tau * real k) [0..<nat dim']) = dT * real i"
    using pos by (simp add: hd_map)
  have "real (nat dim' - 1) = real_of_int (dim' - 1)" using d by (simp add: of_nat_diff)
  then show "last (map (\<lambda>k. dT * real i + Tau * real k) [0..<nat dim'])
           = dT * real i + Tau * real_of_int (dim' - 1)"
    using pos by (simp add: last_map del: of_int_diff)
qed

lemma window_step_stop:
  assumes "1 \<le> dim'" and "padded_range_exceeds (length I) dim' Tau dT i"
  shows "window_loop I P dim' Tau dT (i # rest) X = Inr (take i X)"
  using assms window_times [OF assms(1), of dT i Tau]
  by (simp add: padded_range_exceeds_def Let_def del: of_int_diff)

lemma window_step_ok:
  assumes rect: "list_all (\<lambda>r. length r = P) I" and P2: "2 \<le> P \<or> padded_range_exceeds (length I) dim' Tau dT 0"
    and d: "1 \<le> dim'" and Tau: "0 \<le> Tau" and dT: "0 \<le> dT"
    and fits: "\<not> padded_range_exceeds (length I) dim' Tau dT i"
  shows "window_loop I P dim' Tau dT (i # rest) X =
           window_loop I P dim' Tau dT rest (X[i := window_row I dim' Tau dT i])"
proof -
  define idxx where "idxx = map (\<lambda>k. dT * real i + Tau * real k) [0..<nat dim']"
  define tl where "tl = dT * real i + Tau * real_of_int (dim' - 1)"
  define s where "s = nat \<lfloor>dT * real i\<rfloor>"
  define e where "e = nat (\<lceil>tl\<rceil> + 2)"
  have ne: "idxx \<noteq> []" and hd: "hd idxx = dT * real i" and last: "last idxx = tl"
    unfolding idxx_def tl_def using window_times [OF d] by blast+
  have t0: "0 \<le> dT * real i" using dT by simp
  have tl0: "dT * real i \<le> tl" using Tau d by (simp add: tl_def)
  have start0: "0 \<le> \<lfloor>dT * real i\<rfloor>" using t0 by simp
  have "0 \<le> tl" using t0 tl0 by simp
  then have ctl: "0 \<le> \<lceil>tl\<rceil>" by (simp add: zero_le_ceiling)
  have fc: "\<lfloor>x\<rfloor> \<le> \<lceil>tl\<rceil>" if "x \<le> tl" for x
  proof -
    have "\<lfloor>x\<rfloor> \<le> \<lfloor>tl\<rfloor>" using that by (rule floor_mono)
    also have "\<dots> \<le> \<lceil>tl\<rceil>" by (rule floor_le_ceiling)
    finally show ?thesis .
  qed
  have start_le: "\<lfloor>dT * real i\<rfloor> \<le> \<lceil>tl\<rceil>" using tl0 by (rule fc)
  then have start_end: "\<lfloor>dT * real i\<rfloor> \<le> \<lceil>tl\<rceil> + 2" by simp
  have eN: "\<lceil>tl\<rceil> + 2 < int (length I)" using fits by (simp add: padded_range_exceeds_def tl_def del: of_int_diff)
  then have e: "e < length I" using ctl unfolding e_def by linarith
  have "Tau * real_of_int (dim' - 1) \<le> tl" using t0 by (simp add: tl_def)
  then have "\<lceil>Tau * real_of_int (dim' - 1)\<rceil> \<le> \<lceil>tl\<rceil>" by (rule ceiling_mono)
  then have "\<not> padded_range_exceeds (length I) dim' Tau dT 0"
    using eN by (simp add: padded_range_exceeds_def del: of_int_diff)
  then have P2': "2 \<le> P" using P2 by blast
  have se: "s < e"
    using start0 start_le ctl unfolding s_def e_def by linarith
  have slice: "py_slice [0..<length I] \<lfloor>dT * real i\<rfloor> (\<lceil>tl\<rceil> + 2 + 1) = [s..<Suc e]"
    unfolding s_def e_def using start0 start_end eN by (rule py_slice_range)
  have srt: "sorted idxx"
    unfolding sorted_iff_nth_mono
  proof (intro allI impI)
    fix a b assume ab: "a \<le> b" "b < length idxx"
    then have "Tau * real a \<le> Tau * real b" using Tau by (intro mult_left_mono) simp_all
    then show "idxx ! a \<le> idxx ! b" using ab by (simp add: idxx_def)
  qed
  have inside: "\<forall>t \<in> set idxx. real s \<le> t \<and> nat \<lfloor>t\<rfloor> < e"
  proof
    fix t assume "t \<in> set idxx"
    then obtain k where k: "k < nat dim'" and t: "t = dT * real i + Tau * real k"
      by (auto simp: idxx_def)
    have "real k \<le> real_of_int (dim' - 1)" using k by linarith
    then have "Tau * real k \<le> Tau * real_of_int (dim' - 1)" using Tau by (rule mult_left_mono)
    then have up: "t \<le> tl" by (simp add: t tl_def del: of_int_diff)
    have lo: "dT * real i \<le> t" using Tau by (simp add: t)
    have "real s \<le> dT * real i" using start0 by (simp add: s_def)
    then have a: "real s \<le> t" using lo by simp
    have "\<lfloor>t\<rfloor> \<le> \<lceil>tl\<rceil>" using up by (rule fc)
    then have b: "nat \<lfloor>t\<rfloor> < e" using ctl unfolding e_def by linarith
    show "real s \<le> t \<and> nat \<lfloor>t\<rfloor> < e" using a b by simp
  qed
  have interp: "interp2d_linear P (map real [s..<Suc e]) (map (\<lambda>j. I ! j) [s..<Suc e]) idxx
      = Inr (map (frame_at I) idxx)"
    using rect P2' e se srt inside by (rule interp_window)
  have rows: "map (frame_at I) idxx
      = map (\<lambda>k. frame_at I (dT * real i + Tau * real k)) [0..<nat dim']"
    by (simp add: idxx_def comp_def)
  have "window_loop I P dim' Tau dT (i # rest) X =
      (let idxx' = idxx in
       if idxx' = [] then Inl IndexError
       else
         let start = \<lfloor>hd idxx'\<rfloor>; endd = \<lceil>last idxx'\<rceil> + 2 in
         if int (length I) \<le> endd then Inr (take i X)
         else
           let ys = py_slice [0..<length I] start (endd + 1) in
           case interp2d_linear P (map real ys) (map (\<lambda>j. I ! j) ys) idxx' of
             Inl e \<Rightarrow> Inl e
           | Inr Z \<Rightarrow> window_loop I P dim' Tau dT rest (X[i := concat Z]))"
    unfolding idxx_def by (simp only: window_loop.simps)
  also have "\<dots> = window_loop I P dim' Tau dT rest (X[i := concat (map (frame_at I) idxx)])"
    using ne eN by (simp only: Let_def hd last slice interp) simp
  finally show ?thesis by (simp only: rows window_row_def)
qed

lemma window_loop_run:
  assumes rect: "list_all (\<lambda>r. length r = P) I" and P2: "2 \<le> P \<or> padded_range_exceeds (length I) dim' Tau dT 0"
    and d: "1 \<le> dim'" and Tau: "0 \<le> Tau" and dT: "0 \<le> dT"
  shows "window_loop I P dim' Tau dT js X =
     (case dropWhile (\<lambda>i. \<not> padded_range_exceeds (length I) dim' Tau dT i) js of
        [] \<Rightarrow> Inr (fold (\<lambda>i X. X[i := window_row I dim' Tau dT i]) js X)
      | i # _ \<Rightarrow>
          Inr (take i (fold (\<lambda>i X. X[i := window_row I dim' Tau dT i])
                 (takeWhile (\<lambda>i. \<not> padded_range_exceeds (length I) dim' Tau dT i) js) X)))"
proof (induction js arbitrary: X)
  case Nil
  show ?case by simp
next
  case (Cons i rest)
  show ?case
  proof (cases "padded_range_exceeds (length I) dim' Tau dT i")
    case True
    then show ?thesis using window_step_stop [OF d True] by simp
  next
    case False
    have dw: "dropWhile (\<lambda>i. \<not> padded_range_exceeds (length I) dim' Tau dT i) (i # rest)
        = dropWhile (\<lambda>i. \<not> padded_range_exceeds (length I) dim' Tau dT i) rest"
      using False by simp
    have tw: "takeWhile (\<lambda>i. \<not> padded_range_exceeds (length I) dim' Tau dT i) (i # rest)
        = i # takeWhile (\<lambda>i. \<not> padded_range_exceeds (length I) dim' Tau dT i) rest"
      using False by simp
    show ?thesis
      unfolding window_step_ok [OF rect P2 d Tau dT False] Cons.IH dw tw
      by (simp only: fold_Cons comp_apply)
  qed
qed

lemma fold_update_prefix:
  "k \<le> length X \<Longrightarrow> fold (\<lambda>i X. X[i := f i]) [0..<k] X = map f [0..<k] @ drop k X"
proof (induction k)
  case 0
  show ?case by simp
next
  case (Suc k)
  then have k: "k < length X" by simp
  have "fold (\<lambda>i X. X[i := f i]) [0..<Suc k] X = (map f [0..<k] @ drop k X)[k := f k]"
    using Suc by simp
  also have "\<dots> = map f [0..<k] @ (drop k X)[0 := f k]"
    by (simp add: list_update_append)
  also have "drop k X = X ! k # drop (Suc k) X"
    using k by (simp add: Cons_nth_drop_Suc)
  finally show ?case by simp
qed

lemma window_loop_prefix:
  assumes rect: "list_all (\<lambda>r. length r = P) I" and P2: "2 \<le> P \<or> padded_range_exceeds (length I) dim' Tau dT 0"
    and d: "1 \<le> dim'" and Tau: "0 \<le> Tau" and dT: "0 \<le> dT"
    and m: "m \<le> n" and len: "length X = n"
    and fits: "\<forall>j < m. \<not> padded_range_exceeds (length I) dim' Tau dT j"
    and stop: "m = n \<or> padded_range_exceeds (length I) dim' Tau dT m"
  shows "window_loop I P dim' Tau dT [0..<n] X = Inr (map (window_row I dim' Tau dT) [0..<m])"
proof (cases "m = n")
  case True
  have dw: "dropWhile (\<lambda>i. \<not> padded_range_exceeds (length I) dim' Tau dT i) [0..<n] = []"
    using fits True by (simp add: dropWhile_eq_Nil_conv)
  show ?thesis
    unfolding window_loop_run [OF rect P2 d Tau dT] dw
    using len True by (simp add: fold_update_prefix)
next
  case False
  then have mn: "m < n" and ex: "padded_range_exceeds (length I) dim' Tau dT m" using m stop by auto
  have "[0..<n] = [0..<m] @ [m..<n]"
    using upt_add_eq_append [of 0 m "n - m"] mn by simp
  then have split: "[0..<n] = [0..<m] @ m # [Suc m..<n]"
    using mn by (simp add: upt_conv_Cons)
  have pre: "\<And>x. x \<in> set [0..<m] \<Longrightarrow> \<not> padded_range_exceeds (length I) dim' Tau dT x"
    using fits by simp
  have "takeWhile (\<lambda>i. \<not> padded_range_exceeds (length I) dim' Tau dT i) ([0..<m] @ m # [Suc m..<n])
      = [0..<m] @ takeWhile (\<lambda>i. \<not> padded_range_exceeds (length I) dim' Tau dT i) (m # [Suc m..<n])"
    by (rule takeWhile_append2) (rule pre)
  then have tw: "takeWhile (\<lambda>i. \<not> padded_range_exceeds (length I) dim' Tau dT i) [0..<n] = [0..<m]"
    using ex by (simp add: split [symmetric])
  have "dropWhile (\<lambda>i. \<not> padded_range_exceeds (length I) dim' Tau dT i) ([0..<m] @ m # [Suc m..<n])
      = dropWhile (\<lambda>i. \<not> padded_range_exceeds (length I) dim' Tau dT i) (m # [Suc m..<n])"
    by (rule dropWhile_append2) (rule pre)
  then have dw: "dropWhile (\<lambda>i. \<not> padded_range_exceeds (length I) dim' Tau dT i) [0..<n] = m # [Suc m..<n]"
    using ex by (simp add: split [symmetric])
  show ?thesis
    unfolding window_loop_run [OF rect P2 d Tau dT] dw tw
    using len mn by (simp add: fold_update_prefix)
qed

lemma window_step_one_column:
  assumes d: "1 \<le> dim'" and P1: "P < 2"
    and fits: "\<not> padded_range_exceeds (length I) dim' Tau dT i"
  shows "window_loop I P dim' Tau dT (i # rest) X = Inl FitpackError"
  using fits P1 window_times [OF d, of dT i Tau]
  by (simp add: padded_range_exceeds_def Let_def interp2d_linear_def del: of_int_diff)

lemma sample_range_padded:
  assumes "0 \<le> dT" and "sample_range_exceeds N dim' Tau dT i"
  shows "padded_range_exceeds N dim' Tau dT i"
proof -
  have "0 \<le> dT * real i" using assms(1) by simp
  then have "\<not> \<lfloor>dT * real i\<rfloor> < 0" by (simp add: not_less)
  then have "int N - 1 < \<lceil>dT * real i + Tau * real_of_int (dim' - 1)\<rceil>"
    using assms(2) unfolding sample_range_exceeds_def by blast
  then show ?thesis unfolding padded_range_exceeds_def by linarith
qed

text \<open>
  Claim C1 (amended).  For a rectangular series of \<open>N\<close> frames, \<open>dim \<ge> 1\<close>, positive
  \<open>tau\<close> and \<open>dT\<close> and \<open>dim*tau < N\<close>, with \<open>NumWindows = floor((N - dim*tau)/dT)\<close>:

  \<^item> With at least two columns (or no window, or a first window that is already
    cut off) the embedder returns a cloud.  It has \<open>NumWindows\<close> rows when the padded
    frame range \<open>floor(dT*i) .. ceil(dT*i + tau*(dim-1)) + 2\<close> of no window reaches
    frame \<open>N\<close>; otherwise it stops at the first window \<open>i\<close> whose padded range does
    and has the rows \<open>0 .. i-1\<close>.  A window whose sample times need a frame beyond
    \<open>N-1\<close> is never in the cloud.  Every row \<open>i\<close> of the cloud is the concatenation
    of the frames interpolated linearly in time at \<open>dT*i + tau*k\<close>,
    \<open>k = 0 .. dim-1\<close>.

  \<^item> With a single column the interpolation routine raises as soon as a window
    is computed.

  Floor and ceiling are those of the exact values.
\<close>

theorem sliding_window_cloud:
  assumes d: "1 \<le> dim'" and Tau: "0 < Tau" and dT: "0 < dT"
    and short: "real_of_int dim' * Tau < real (length I)"
    and rect: "list_all (\<lambda>r. length r = P) I"
    and NW: "NumWindows = nat \<lfloor>(real (length I) - real_of_int dim' * Tau) / dT\<rfloor>"
  shows "(2 \<le> P \<or> NumWindows = 0 \<or> padded_range_exceeds (length I) dim' Tau dT 0 \<longrightarrow>
      (\<exists>X. getSlidingWindowVideo I P dim' Tau dT = Inr X
        \<and> ((\<forall>i < NumWindows. \<not> padded_range_exceeds (length I) dim' Tau dT i)
              \<longrightarrow> length X = NumWindows)
        \<and> (\<forall>i < NumWindows. padded_range_exceeds (length I) dim' Tau dT i
              \<and> (\<forall>j < i. \<not> padded_range_exceeds (length I) dim' Tau dT j) \<longrightarrow> length X = i)
        \<and> (\<forall>i < NumWindows. sample_range_exceeds (length I) dim' Tau dT i \<longrightarrow> length X \<le> i)
        \<and> (\<forall>i < length X. X ! i = window_row I dim' Tau dT i)))
    \<and> (P < 2 \<and> 0 < NumWindows \<and> \<not> padded_range_exceeds (length I) dim' Tau dT 0 \<longrightarrow>
          getSlidingWindowVideo I P dim' Tau dT = Inl FitpackError)"
proof -
  define nw where "nw = \<lfloor>(real (length I) - real_of_int dim' * Tau) / dT\<rfloor>"
  define m where "m = (if \<exists>i < NumWindows. padded_range_exceeds (length I) dim' Tau dT i
      then LEAST i. padded_range_exceeds (length I) dim' Tau dT i else NumWindows)"
  define X where "X = map (window_row I dim' Tau dT) [0..<m]"
  have "0 \<le> (real (length I) - real_of_int dim' * Tau) / dT"
    using short dT by simp
  then have nw0: "\<not> nw < 0" unfolding nw_def by (simp add: not_less)
  have cols: "\<not> dim' * int P < 0" using d by (simp add: not_less)
  have dT0: "dT \<noteq> 0" using dT by simp
  have start: "getSlidingWindowVideo I P dim' Tau dT =
      window_loop I P dim' Tau dT [0..<NumWindows]
        (replicate NumWindows (replicate (nat (dim' * int P)) 0))"
    using dT0 nw0 cols unfolding getSlidingWindowVideo_def Let_def NW nw_def [symmetric]
    by (simp only: if_False simp_thms)
  have m_none: "m = NumWindows"
    if "\<not> (\<exists>i < NumWindows. padded_range_exceeds (length I) dim' Tau dT i)"
    unfolding m_def using that by (rule if_not_P)
  have m_some: "m = (LEAST i. padded_range_exceeds (length I) dim' Tau dT i)"
    if "\<exists>i < NumWindows. padded_range_exceeds (length I) dim' Tau dT i"
    unfolding m_def using that by (rule if_P)
  have mle: "m \<le> NumWindows"
  proof (cases "\<exists>i < NumWindows. padded_range_exceeds (length I) dim' Tau dT i")
    case True
    then obtain i where i: "i < NumWindows" "padded_range_exceeds (length I) dim' Tau dT i"
      by blast
    then have "(LEAST i. padded_range_exceeds (length I) dim' Tau dT i) \<le> i"
      by (intro Least_le)
    then show ?thesis using m_some [OF True] i by simp
  next
    case False
    then show ?thesis using m_none by simp
  qed
  have fits: "\<forall>j < m. \<not> padded_range_exceeds (length I) dim' Tau dT j"
  proof (cases "\<exists>i < NumWindows. padded_range_exceeds (length I) dim' Tau dT i")
    case True
    then have "m = (LEAST i. padded_range_exceeds (length I) dim' Tau dT i)" by (rule m_some)
    then show ?thesis using not_less_Least by blast
  next
    case False
    then show ?thesis using m_none by blast
  qed
  have stop: "m = NumWindows \<or> padded_range_exceeds (length I) dim' Tau dT m"
  proof (cases "\<exists>i < NumWindows. padded_range_exceeds (length I) dim' Tau dT i")
    case True
    then have "m = (LEAST i. padded_range_exceeds (length I) dim' Tau dT i)" by (rule m_some)
    then show ?thesis
      using True LeastI_ex [of "padded_range_exceeds (length I) dim' Tau dT"] by auto
  next
    case False
    then show ?thesis using m_none by blast
  qed
  have lenX: "length X = m" by (simp add: X_def)
  have c1: "(\<forall>i < NumWindows. \<not> padded_range_exceeds (length I) dim' Tau dT i)
      \<longrightarrow> length X = NumWindows"
    using m_none lenX by auto
  have first: "length X = i"
    if i: "i < NumWindows"
      and h: "padded_range_exceeds (length I) dim' Tau dT i
            \<and> (\<forall>j < i. \<not> padded_range_exceeds (length I) dim' Tau dT j)" for i
  proof -
    have "\<not> i < m" using fits h by blast
    moreover have "\<not> m < i" using stop h i by auto
    ultimately show "length X = i" using lenX by simp
  qed
  have c2: "\<forall>i < NumWindows. padded_range_exceeds (length I) dim' Tau dT i
      \<and> (\<forall>j < i. \<not> padded_range_exceeds (length I) dim' Tau dT j) \<longrightarrow> length X = i"
    using first by blast
  have c3: "\<forall>i < NumWindows. sample_range_exceeds (length I) dim' Tau dT i \<longrightarrow> length X \<le> i"
  proof (intro allI impI)
    fix i assume "i < NumWindows" and "sample_range_exceeds (length I) dim' Tau dT i"
    then have "padded_range_exceeds (length I) dim' Tau dT i"
      using less_imp_le [OF dT] by (intro sample_range_padded)
    then have "\<not> i < m" using fits by blast
    then show "length X \<le> i" using lenX by simp
  qed
  have c4: "\<forall>i < length X. X ! i = window_row I dim' Tau dT i"
    by (simp add: X_def)
  have run: "getSlidingWindowVideo I P dim' Tau dT = Inr X"
    if P2: "2 \<le> P \<or> NumWindows = 0 \<or> padded_range_exceeds (length I) dim' Tau dT 0"
  proof (cases "NumWindows = 0")
    case True
    then have "m = 0" using mle by simp
    then show ?thesis unfolding start X_def using True by simp
  next
    case False
    then have P2': "2 \<le> P \<or> padded_range_exceeds (length I) dim' Tau dT 0"
      using P2 by blast
    show ?thesis
      unfolding start X_def
      using rect P2' d less_imp_le [OF Tau] less_imp_le [OF dT] mle _ fits stop
      by (rule window_loop_prefix) simp
  qed
  have fail: "getSlidingWindowVideo I P dim' Tau dT = Inl FitpackError"
    if h: "P < 2 \<and> 0 < NumWindows \<and> \<not> padded_range_exceeds (length I) dim' Tau dT 0"
  proof -
    have "[0..<NumWindows] = 0 # [Suc 0..<NumWindows]"
      using h by (simp add: upt_conv_Cons)
    then show ?thesis
      unfolding start using window_step_one_column [OF d, of P I Tau dT 0] h by simp
  qed
  show ?thesis using run c1 c2 c3 c4 fail by blast
qed

theorem sliding_window_cloud_witness:
  "(1::int) \<le> 2 \<and> (0::real) < 1 / 2
   \<and> real_of_int 2 * (1 / 2) < real (length [[1, 2], [3, 4], [5, 6], [7, 8], [9, 10], [11, 12 :: real]])
   \<and> list_all (\<lambda>r. length r = 2) [[1, 2], [3, 4], [5, 6], [7, 8], [9, 10], [11, 12 :: real]]
   \<and> getSlidingWindowVideo [[1, 2], [3, 4], [5, 6], [7, 8], [9, 10], [11, 12]] 2 2 (1 / 2) (1 / 2)
       = Inr [[1, 2, 2, 3], [2, 3, 3, 4], [3, 4, 4, 5], [4, 5, 5, 6], [5, 6, 6, 7], [6, 7, 7, 8]]
   \<and> padded_range_exceeds 6 2 (1 / 2) (1 / 2) 6
   \<and> window_row [[1, 2], [3, 4], [5, 6], [7, 8], [9, 10], [11, 12]] 2 (1 / 2) (1 / 2) 1 = [2, 3, 3, 4]
   \<and> list_all (\<lambda>r. length r = 1) [[1], [2], [3], [4], [5 :: real]]
   \<and> \<not> padded_range_exceeds 5 2 1 1 0
   \<and> getSlidingWindowVideo [[1], [2], [3], [4], [5]] 1 2 1 1 = Inl FitpackError"
proof -
  have run: "getSlidingWindowVideo [[1, 2], [3, 4], [5, 6], [7, 8], [9, 10], [11, 12]] 2 2 (1 / 2) (1 / 2)
       = Inr [[1, 2, 2, 3], [2, 3, 3, 4], [3, 4, 4, 5], [4, 5, 5, 6], [5, 6, 6, 7], [6, 7, 7, 8]]"
    by code_simp
  have ex: "padded_range_exceeds 6 2 (1 / 2) (1 / 2) 6" by code_simp
  have row: "window_row [[1, 2], [3, 4], [5, 6], [7, 8], [9, 10], [11, 12]] 2 (1 / 2) (1 / 2) 1 = [2, 3, 3, 4]"
    by code_simp
  have rect: "list_all (\<lambda>r. length r = 2) [[1, 2], [3, 4], [5, 6], [7, 8], [9, 10], [11, 12 :: real]]"
    by simp
  have rect1: "list_all (\<lambda>r. length r = 1) [[1], [2], [3], [4], [5 :: real]]"
    by simp
  have fit: "\<not> padded_range_exceeds 5 2 1 1 0" by code_simp
  have fit': "\<not> padded_range_exceeds (length [[1], [2], [3], [4], [5 :: real]]) 2 1 1 0"
    by code_simp
  have one: "getSlidingWindowVideo [[1], [2], [3], [4], [5]] 1 2 1 1 = Inl FitpackError"
    using sliding_window_cloud [of 2 1 1 "[[1], [2], [3], [4], [5]]" 1 3, OF _ _ _ _ rect1] fit'
    by simp
  from sliding_window_cloud [of 2 "1 / 2" "1 / 2" "[[1, 2], [3, 4], [5, 6], [7, 8], [9, 10], [11, 12]]" 2, OF _ _ _ _ rect]
    run ex row rect rect1 fit one
  show ?thesis by simp
qed

text \<open>
  Claim C1 as stated.  Five frames with \<open>dim = 2\<close>, \<open>tau = dT = 1\<close> give
  \<open>NumWindows = 3\<close>; the sample times of every window lie within the frames
  \<open>0 .. 3\<close>, so no needed frame range exceeds the series, and yet the cloud has two
  rows: the third window, whose row would be \<open>[5, 6, 7, 8]\<close>, is cut off.  The same
  frames with a single column make the interpolation routine raise.
\<close>

theorem sliding_window_counterexample:
  "nat \<lfloor>(real (length [[1, 2], [3, 4], [5, 6], [7, 8], [9, 10 :: real]]) - real_of_int 2 * 1) / 1\<rfloor> = 3
   \<and> \<not> sample_range_exceeds 5 2 1 1 0
   \<and> \<not> sample_range_exceeds 5 2 1 1 1
   \<and> \<not> sample_range_exceeds 5 2 1 1 2
   \<and> window_row [[1, 2], [3, 4], [5, 6], [7, 8], [9, 10]] 2 1 1 2 = [5, 6, 7, 8]
   \<and> getSlidingWindowVideo [[1, 2], [3, 4], [5, 6], [7, 8], [9, 10]] 2 2 1 1
       = Inr [[1, 2, 3, 4], [3, 4, 5, 6]]
   \<and> getSlidingWindowVideo [[1], [2], [3], [4], [5]] 1 2 1 1 = Inl FitpackError"
  by code_simp

text \<open>
  With unit delay and unit step, as in the jumping-jacks cell, the frame range of the
  last window always reaches \<open>N\<close>: of the \<open>N - dim\<close> windows the first
  \<open>N - dim - 1\<close> fit and the last one is dropped.
\<close>

lemma unit_step_drops_last_window:
  assumes "1 \<le> dim'" and "dim' < int N"
  shows "nat \<lfloor>(real N - real_of_int dim' * 1) / 1\<rfloor> = N - nat dim'"
    and "padded_range_exceeds N dim' 1 1 (N - nat dim' - 1)"
    and "\<forall>j < N - nat dim' - 1. \<not> padded_range_exceeds N dim' 1 1 j"
proof -
  have "real N - real_of_int dim' = real_of_int (int N - dim')" by simp
  then have "\<lfloor>(real N - real_of_int dim' * 1) / 1\<rfloor> = int N - dim'"
    by (simp only: mult_1_right div_by_1 floor_of_int)
  then show "nat \<lfloor>(real N - real_of_int dim' * 1) / 1\<rfloor> = N - nat dim'"
    using assms by simp
  have ex: "padded_range_exceeds N dim' 1 1 i \<longleftrightarrow> int N \<le> int i + dim' + 1" for i
  proof -
    have "1 * real i + 1 * real_of_int (dim' - 1) = real_of_int (int i + dim' - 1)" by simp
    then have "\<lceil>1 * real i + 1 * real_of_int (dim' - 1)\<rceil> = int i + dim' - 1"
      by (simp only: ceiling_of_int)
    then show ?thesis unfolding padded_range_exceeds_def by linarith
  qed
  show "padded_range_exceeds N dim' 1 1 (N - nat dim' - 1)"
    unfolding ex using assms by linarith
  show "\<forall>j < N - nat dim' - 1. \<not> padded_range_exceeds N dim' 1 1 j"
    unfolding ex using assms by auto
qed

end
